theory Spec2Isabelle
  imports Complex_Main
begin

section \<open>Exceptions and generators\<close>

text \<open>
  The exceptions of the Python code that the model distinguishes. \<open>HTTPError\<close> is a
  subclass of \<open>URLError\<close>; \<open>ConnectionResetError\<close> and \<open>IncompleteRead\<close> are raised by the
  socket and by \<open>http.client\<close> while a response is being read and are not subclasses
  of \<open>URLError\<close>. \<open>IntegrityError\<close>, \<open>ProgrammingError\<close> and \<open>OperationalError\<close> are the
  exceptions of the \<open>sqlite3\<close> module. \<open>ResolverError\<close> stands for whatever the geo
  resolver raises on a locator it rejects, \<open>GzipError\<close> for what the decompressor raises.
\<close>

datatype error =
    ValueError
  | IndexError
  | TypeError
  | ZeroDivisionError
  | URLError
  | HTTPError nat
  | ConnectionResetError
  | IncompleteRead
  | IntegrityError
  | ProgrammingError
  | OperationalError
  | ResolverError
  | GzipError
  | FileNotFoundError

text \<open>
  A Python iterator over a finite file is the sequence of what its \<open>__next__\<close> does:
  it yields an item and continues, raises \<open>StopIteration\<close>, or raises an exception.
\<close>

datatype 'a generator =
    Yield 'a "'a generator"
  | StopIteration
  | Raise error

fun items :: "'a generator \<Rightarrow> 'a list" where
  "items (Yield x w) = x # items w"
| "items StopIteration = []"
| "items (Raise e) = []"

fun outcome :: "'a generator \<Rightarrow> error option" where
  "outcome (Yield x w) = outcome w"
| "outcome StopIteration = None"
| "outcome (Raise e) = Some e"

fun generator_of :: "'a list \<Rightarrow> 'a generator" where
  "generator_of [] = StopIteration"
| "generator_of (x # xs) = Yield x (generator_of xs)"

section \<open>Strings: \<open>rstrip\<close>, \<open>split\<close>, \<open>int\<close>, indexing\<close>

text \<open>
  Text is a list of characters with the code points 0 to 255. On that range Python's
  \<open>str.isspace\<close> holds of 0x09-0x0d, 0x1c-0x1f, the blank, 0x85 and 0xa0; this is
  the white space that \<open>str.rstrip\<close> removes.
\<close>

definition is_space :: "char \<Rightarrow> bool" where
  "is_space c =
     (let n = (of_char c :: nat)
      in (9 \<le> n \<and> n \<le> 13) \<or> (28 \<le> n \<and> n \<le> 32) \<or> n = 133 \<or> n = 160)"

definition is_digit :: "char \<Rightarrow> bool" where
  "is_digit c = (let n = (of_char c :: nat) in 48 \<le> n \<and> n \<le> 57)"

definition digit_val :: "char \<Rightarrow> int" where
  "digit_val c = int (of_char c) - 48"

definition rstrip :: "string \<Rightarrow> string" where
  "rstrip s = rev (dropWhile is_space (rev s))"

text \<open>A text without the characters of a given kind at its two ends.\<close>

definition strip_around :: "(char \<Rightarrow> bool) \<Rightarrow> string \<Rightarrow> string" where
  "strip_around sp s = dropWhile sp (rev (dropWhile sp (rev s)))"

text \<open>\<open>s.split(sep)\<close> with a one-character separator: never the empty list.\<close>

fun str_split :: "char \<Rightarrow> string \<Rightarrow> string list" where
  "str_split sep [] = [[]]"
| "str_split sep (c # cs) =
     (if c = sep then [] # str_split sep cs
      else (case str_split sep cs of
              [] \<Rightarrow> [[c]]
            | f # fs \<Rightarrow> (c # f) # fs))"

text \<open>
  The digits of an integer literal as \<open>int\<close> accepts them: groups of decimal digits,
  separated by single underscores. The flag records that the previous character was a
  digit.
\<close>

fun int_digits :: "int \<Rightarrow> bool \<Rightarrow> string \<Rightarrow> int option" where
  "int_digits acc d [] = (if d then Some acc else None)"
| "int_digits acc d (c # cs) =
     (if is_digit c then int_digits (acc * 10 + digit_val c) True cs
      else if c = CHR ''_'' \<and> d then int_digits acc False cs
      else None)"

text \<open>
  \<open>int(s)\<close>: white space at both ends, an optional sign, the digits. The white space
  that \<open>int\<close> skips is 0x09-0x0d and the blank, and the white space outside ASCII, here
  0x85 and 0xa0; the separators 0x1c-0x1f are not skipped. A literal of more than
  \<open>sys.get_int_max_str_digits()\<close> digits, 4300 unless configured otherwise, is
  refused.
\<close>

definition int_space :: "char \<Rightarrow> bool" where
  "int_space c =
     (let n = (of_char c :: nat)
      in (9 \<le> n \<and> n \<le> 13) \<or> n = 32 \<or> n = 133 \<or> n = 160)"

definition int_max_str_digits :: nat where
  "int_max_str_digits = 4300"

definition py_int :: "string \<Rightarrow> error + int" where
  "py_int s =
     (case strip_around int_space s of
        [] \<Rightarrow> Inl ValueError
      | c # cs \<Rightarrow>
          (let (neg, body) =
                 (if c = CHR ''-'' then (True, cs)
                  else if c = CHR ''+'' then (False, cs)
                  else (False, c # cs))
           in case int_digits 0 False body of
                None \<Rightarrow> Inl ValueError
              | Some n \<Rightarrow>
                  if int_max_str_digits < length (filter is_digit body) then Inl ValueError
                  else Inr (if neg then - n else n)))"

text \<open>\<open>xs[i]\<close> for a non-negative constant index: \<open>IndexError\<close> out of range.\<close>

definition getitem :: "'a list \<Rightarrow> nat \<Rightarrow> error + 'a" where
  "getitem xs i = (if i < length xs then Inr (xs ! i) else Inl IndexError)"

section \<open>The spot reader (ingest.py, \<open>read_spots\<close>)\<close>

text \<open>
  A record is the list handed to the \<open>INSERT\<close>: the text fields of the line, then the
  numbers the geo resolver returned. The resolver \<open>geo.grid2latlon\<close> is not part of the
  sources; it is a parameter, a pure function from the value it is applied to to a
  (latitude, longitude) pair, or to the exception it raises.
\<close>

datatype 'c field = Str string | Num 'c

type_synonym 'c spot = "'c field list"

type_synonym 'c resolver = "'c field \<Rightarrow> error + 'c \<times> 'c"

text \<open>
  The body of the \<open>for line in zfd\<close> loop: \<open>Inr None\<close> is the \<open>continue\<close>,
  \<open>Inr (Some fields)\<close> the \<open>yield\<close>. The second lookup, \<open>fields[7]\<close>, reads the list
  after the first \<open>extend\<close>, as the source does.
\<close>

definition read_line :: "'c resolver \<Rightarrow> int \<Rightarrow> string \<Rightarrow> error + 'c spot option" where
  "read_line grid2latlon start_id line =
     (let fields = str_split CHR '','' (rstrip line) in
      case getitem fields 0 of
        Inl e \<Rightarrow> Inl e
      | Inr f0 \<Rightarrow>
      (case py_int f0 of
        Inl e \<Rightarrow> Inl e
      | Inr n \<Rightarrow>
          if n \<le> start_id then Inr None
          else
            (case getitem fields 3 of
               Inl e \<Rightarrow> Inl e
             | Inr tx \<Rightarrow>
                 (case grid2latlon (Str tx) of
                    Inl e \<Rightarrow> Inl e
                  | Inr (tx_lat, tx_lon) \<Rightarrow>
                      (let fields1 = map Str fields @ [Num tx_lat, Num tx_lon] in
                       case getitem fields1 7 of
                         Inl e \<Rightarrow> Inl e
                       | Inr rx \<Rightarrow>
                           (case grid2latlon rx of
                              Inl e \<Rightarrow> Inl e
                            | Inr (rx_lat, rx_lon) \<Rightarrow>
                                Inr (Some (fields1 @ [Num rx_lat, Num rx_lon]))))))))"

text \<open>
  \<open>read_spots\<close> over the lines the decompressed file delivers (\<open>zfd\<close>, itself an
  iterator that may raise).
\<close>

fun read_spots :: "'c resolver \<Rightarrow> string generator \<Rightarrow> int \<Rightarrow> 'c spot generator" where
  "read_spots grid2latlon (Yield line zfd) start_id =
     (case read_line grid2latlon start_id line of
        Inl e \<Rightarrow> Raise e
      | Inr None \<Rightarrow> read_spots grid2latlon zfd start_id
      | Inr (Some fields) \<Rightarrow> Yield fields (read_spots grid2latlon zfd start_id))"
| "read_spots grid2latlon StopIteration start_id = StopIteration"
| "read_spots grid2latlon (Raise e) start_id = Raise e"

section \<open>The storage gateway (dbutils.py)\<close>

text \<open>
  The statements of the schema script. The flag of \<open>CREATE_TABLE\<close> and of
  \<open>CREATE_INDEX\<close> is the clause \<open>IF NOT EXISTS\<close>.
\<close>

datatype statement =
    CREATE_TABLE bool string "string list"
  | CREATE_INDEX bool string string string
  | PRAGMA string string

definition wspr_columns :: "string list" where
  "wspr_columns =
     [''spot_id'', ''time'', ''tx_call'', ''tx_grid'', ''snr'', ''frequency'', ''rx_call'',
      ''rx_grid'', ''power'', ''drift'', ''distance'', ''azimuth'', ''band'', ''version'',
      ''code'', ''tx_lat'', ''tx_lon'', ''rx_lat'', ''rx_lon'']"

definition SQL_TABLE :: "statement list" where
  "SQL_TABLE =
     [CREATE_TABLE True ''wspr'' wspr_columns,
      CREATE_INDEX False ''idx_time'' ''wspr'' ''time'',
      CREATE_INDEX False ''idx_tx_call'' ''wspr'' ''tx_call'',
      CREATE_INDEX False ''idx_rx_call'' ''wspr'' ''rx_call'',
      CREATE_INDEX False ''idx_band'' ''wspr'' ''band'',
      PRAGMA ''synchronous'' ''EXTRA'',
      PRAGMA ''journal_mode'' ''WAL'']"

text \<open>
  The database file: its schema, its settings and the committed rows of table
  \<open>wspr\<close>.
\<close>

record 'c database =
  tables :: "(string \<times> string list) list"
  indexes :: "(string \<times> string \<times> string) list"
  pragmas :: "(string \<times> string) list"
  wspr :: "'c spot list"

definition empty_database :: "'c database" where
  "empty_database = \<lparr>tables = [], indexes = [], pragmas = [], wspr = []\<rparr>"

text \<open>
  One statement of a script, as the engine runs it: creating a table or an index
  that exists is an error unless the statement says \<open>IF NOT EXISTS\<close>.
\<close>

fun execute :: "statement \<Rightarrow> 'c database \<Rightarrow> error + 'c database" where
  "execute (CREATE_TABLE if_not_exists name cols) db =
     (if name \<in> set (map fst (tables db))
      then (if if_not_exists then Inr db else Inl OperationalError)
      else Inr (db\<lparr>tables := tables db @ [(name, cols)]\<rparr>))"
| "execute (CREATE_INDEX if_not_exists name tbl col) db =
     (if name \<in> set (map fst (indexes db))
      then (if if_not_exists then Inr db else Inl OperationalError)
      else (case map_of (tables db) tbl of
              None \<Rightarrow> Inl OperationalError
            | Some cols \<Rightarrow>
                if col \<in> set cols
                then Inr (db\<lparr>indexes := indexes db @ [(name, tbl, col)]\<rparr>)
                else Inl OperationalError))"
| "execute (PRAGMA key val) db =
     Inr (db\<lparr>pragmas := filter (\<lambda>p. fst p \<noteq> key) (pragmas db) @ [(key, val)]\<rparr>)"

text \<open>
  A connection: the database it is connected to, the rows inserted in the open
  transaction, and the calls made on it so far.
\<close>

datatype 'c call =
    ExecuteScript "statement list" "error option"
  | ExecuteMany "'c spot list" "error option"
  | SelectMax
  | Commit
  | Close

record 'c connection =
  store :: "'c database"
  pending :: "'c spot list"
  calls :: "'c call list"
  closed :: bool

definition connect :: "'c database option \<Rightarrow> 'c connection" where
  "connect db_file =
     \<lparr>store = (case db_file of None \<Rightarrow> empty_database | Some db \<Rightarrow> db),
      pending = [], calls = [], closed = False\<rparr>"

definition write_pending :: "'c connection \<Rightarrow> 'c connection" where
  "write_pending conn =
     conn\<lparr>store := (store conn)\<lparr>wspr := wspr (store conn) @ pending conn\<rparr>, pending := []\<rparr>"

definition commit :: "'c connection \<Rightarrow> 'c connection" where
  "commit conn = (write_pending conn)\<lparr>calls := calls conn @ [Commit]\<rparr>"

definition close :: "'c connection \<Rightarrow> 'c connection" where
  "close conn = conn\<lparr>pending := [], closed := True, calls := calls conn @ [Close]\<rparr>"

text \<open>
  \<open>executescript\<close> commits the open transaction first and runs the statements one
  after the other, each taking effect at once, up to the first that fails.
\<close>

fun run_script :: "statement list \<Rightarrow> 'c database \<Rightarrow> 'c database \<times> error option" where
  "run_script [] db = (db, None)"
| "run_script (s # ss) db =
     (case execute s db of
        Inl e \<Rightarrow> (db, Some e)
      | Inr db' \<Rightarrow> run_script ss db')"

definition executescript ::
  "statement list \<Rightarrow> 'c connection \<Rightarrow> 'c connection \<times> (error + unit)" where
  "executescript script conn =
     (let conn1 = write_pending conn;
          (db, r) = run_script script (store conn1);
          conn2 = conn1\<lparr>store := db, calls := calls conn1 @ [ExecuteScript script r]\<rparr>
      in (conn2, case r of None \<Rightarrow> Inr () | Some e \<Rightarrow> Inl e))"

text \<open>
  The column \<open>spot_id INTEGER PRIMARY KEY\<close> receives the first value of a row, which
  is the text of the first field of a line. The engine takes a text as the key when it
  is an integer literal, that is, optional white space (0x09-0x0d and the blank), an
  optional sign, decimal digits, optional white space, whose value has 64 bits;
  otherwise the insert fails with \<open>datatype mismatch\<close>. (The engine also converts
  a text in the form of a real literal that denotes a whole number; the reader hands
  on no such text, since \<open>int\<close> refuses it, and every row of the reader begins
  with a text.)
\<close>

definition sql_space :: "char \<Rightarrow> bool" where
  "sql_space c = (let n = (of_char c :: nat) in (9 \<le> n \<and> n \<le> 13) \<or> n = 32)"

fun digits_value :: "int \<Rightarrow> string \<Rightarrow> int" where
  "digits_value acc [] = acc"
| "digits_value acc (c # cs) = digits_value (acc * 10 + digit_val c) cs"

definition sql_integer :: "string \<Rightarrow> int option" where
  "sql_integer s =
     (case strip_around sql_space s of
        [] \<Rightarrow> None
      | c # cs \<Rightarrow>
          (let (neg, body) =
                 (if c = CHR ''-'' then (True, cs)
                  else if c = CHR ''+'' then (False, cs)
                  else (False, c # cs))
           in if body \<noteq> [] \<and> list_all is_digit body
              then (let k = (if neg then - digits_value 0 body else digits_value 0 body)
                    in if - (2 ^ 63) \<le> k \<and> k < 2 ^ 63 then Some k else None)
              else None))"

definition primary_key :: "'c spot \<Rightarrow> int option" where
  "primary_key r = (case r of Str s # _ \<Rightarrow> sql_integer s | _ \<Rightarrow> None)"

definition spot_ids :: "'c spot list \<Rightarrow> int list" where
  "spot_ids rows = List.map_filter primary_key rows"

text \<open>
  \<open>INSERT INTO wspr VALUES (?, ... 19 times)\<close> for one row: the number of bindings
  (\<open>ProgrammingError\<close> when it is not 19), then the primary key, which must be an
  integer that the table (committed rows and rows of the open transaction) does not
  hold yet (\<open>IntegrityError\<close> otherwise). The other columns take any value.
\<close>

definition INSERT :: nat where
  "INSERT = 19"

definition insert_row :: "'c spot \<Rightarrow> 'c connection \<Rightarrow> error + 'c connection" where
  "insert_row r conn =
     (if length r \<noteq> INSERT then Inl ProgrammingError
      else (case primary_key r of
              None \<Rightarrow> Inl IntegrityError
            | Some k \<Rightarrow>
                if k \<in> set (spot_ids (wspr (store conn) @ pending conn))
                then Inl IntegrityError
                else Inr (conn\<lparr>pending := pending conn @ [r]\<rparr>)))"

text \<open>
  \<open>executemany\<close> runs the statement once per row, in order; the rows before the one
  that fails stay in the open transaction.
\<close>

fun insert_rows :: "'c spot list \<Rightarrow> 'c connection \<Rightarrow> 'c connection \<times> error option" where
  "insert_rows [] conn = (conn, None)"
| "insert_rows (r # rs) conn =
     (case insert_row r conn of
        Inl e \<Rightarrow> (conn, Some e)
      | Inr conn' \<Rightarrow> insert_rows rs conn')"

definition executemany ::
  "'c spot list \<Rightarrow> 'c connection \<Rightarrow> 'c connection \<times> (error + unit)" where
  "executemany bulk conn =
     (let (conn1, r) =
            (case map_of (tables (store conn)) ''wspr'' of
               None \<Rightarrow> (conn, Some OperationalError)
             | Some cols \<Rightarrow>
                 if length cols \<noteq> INSERT then (conn, Some OperationalError)
                 else insert_rows bulk conn);
          conn2 = conn1\<lparr>calls := calls conn1 @ [ExecuteMany bulk r]\<rparr>
      in (conn2, case r of None \<Rightarrow> Inr () | Some e \<Rightarrow> Inl e))"

fun list_max :: "int list \<Rightarrow> int option" where
  "list_max [] = None"
| "list_max (x # xs) = (case list_max xs of None \<Rightarrow> Some x | Some m \<Rightarrow> Some (max x m))"

text \<open>\<open>SELECT MAX(spot_id) AS last_id FROM wspr\<close>: \<open>None\<close> is SQL's NULL.\<close>

definition select_max ::
  "'c connection \<Rightarrow> 'c connection \<times> (error + int option)" where
  "select_max conn =
     (conn\<lparr>calls := calls conn @ [SelectMax]\<rparr>,
      case map_of (tables (store conn)) ''wspr'' of
        None \<Rightarrow> Inl OperationalError
      | Some cols \<Rightarrow> Inr (list_max (spot_ids (wspr (store conn) @ pending conn))))"

text \<open>
  What the program logs: one constructor for each call of \<open>logging\<close> in ingest.py.
  A timer's message is kept as its parts.
\<close>

datatype part =
    Title string
  | Hours int
  | Minutes int
  | Seconds int real
  | Items_per_second real

datatype message =
    No_new_data string
  | Downloading string
  | HTTP_Error error
  | Records_processed nat
  | Nothing_to_import
  | Database
  | Counting_records
  | Last_id int
  | Importing string
  | Timer_message "part list"
  | Cache_info

datatype level = INFO | WARNING

text \<open>
  The state the program runs in: the files of the working directory (path to
  bytes), the database file \<open>DB_NAME\<close> (\<open>None\<close> when it does not exist), the log, the
  number of clock readings taken, and the calls made so far on connections to the
  database.
\<close>

record 'c world =
  files :: "string \<Rightarrow> string option"
  database_file :: "'c database option"
  logged :: "(level \<times> message) list"
  ticks :: nat
  db_calls :: "'c call list"

definition info :: "message \<Rightarrow> 'c world \<Rightarrow> 'c world" where
  "info m w = w\<lparr>logged := logged w @ [(INFO, m)]\<rparr>"

definition warning :: "message \<Rightarrow> 'c world \<Rightarrow> 'c world" where
  "warning m w = w\<lparr>logged := logged w @ [(WARNING, m)]\<rparr>"

text \<open>
  The class \<open>DBConnect\<close> as a scope: \<open>__enter__\<close> connects (creating the file when it
  does not exist), \<open>__exit__\<close> commits and closes, whatever the body did, and lets the
  body's exception through.
\<close>

definition DBConnect_exit :: "'c connection \<Rightarrow> 'c connection" where
  "DBConnect_exit conn = close (commit conn)"

definition DBConnect ::
  "('c connection \<Rightarrow> 'c connection \<times> (error + 'a)) \<Rightarrow> 'c world \<Rightarrow>
   'c world \<times> (error + 'a)" where
  "DBConnect body w =
     (let (conn, r) = body (connect (database_file w));
          conn' = DBConnect_exit conn
      in (w\<lparr>database_file := Some (store conn'), db_calls := db_calls w @ calls conn'\<rparr>, r))"

definition create_db :: "'c world \<Rightarrow> 'c world \<times> (error + unit)" where
  "create_db w = DBConnect (executescript SQL_TABLE) w"

section \<open>The batch loop (ingest.py, \<open>wspr_import\<close>)\<close>

definition BULK_LENGTH :: nat where
  "BULK_LENGTH = 1000"

text \<open>
  The inner loop \<open>for _ in range(BULK_LENGTH): bulk.append(wspot.__next__())\<close>: it
  ends with a full \<open>bulk\<close>, or with \<open>StopIteration\<close> and what \<open>bulk\<close> holds by then,
  or with the reader's exception.
\<close>

datatype 'a filled =
    Full "'a list" "'a generator"
  | Stopped "'a list"
  | Raised error

fun fill_bulk :: "nat \<Rightarrow> 'a generator \<Rightarrow> 'a list \<Rightarrow> 'a filled" where
  "fill_bulk 0 wspot bulk = Full bulk wspot"
| "fill_bulk (Suc n) (Yield r wspot) bulk = fill_bulk n wspot (bulk @ [r])"
| "fill_bulk (Suc n) StopIteration bulk = Stopped bulk"
| "fill_bulk (Suc n) (Raise e) bulk = Raised e"

text \<open>
  The loop \<open>while True\<close> with its handler of \<open>StopIteration\<close>. The connection is
  returned in every case: what was inserted before an exception stays in the open
  transaction.
\<close>

function import_loop ::
  "'c spot generator \<Rightarrow> 'c connection \<Rightarrow> nat \<Rightarrow> 'c connection \<times> (error + nat)" where
  "import_loop wspot conn counter =
     (case fill_bulk BULK_LENGTH wspot [] of
        Full bulk wspot' \<Rightarrow>
          (case executemany bulk conn of
             (conn', Inl e) \<Rightarrow> (conn', Inl e)
           | (conn', Inr _) \<Rightarrow> import_loop wspot' conn' (counter + length bulk))
      | Stopped bulk \<Rightarrow>
          (if bulk \<noteq> [] then
             (case executemany bulk conn of
                (conn', Inl e) \<Rightarrow> (conn', Inl e)
              | (conn', Inr _) \<Rightarrow> (conn', Inr (counter + length bulk)))
           else (conn, Inr counter))
      | Raised e \<Rightarrow> (conn, Inl e))"
  by pat_completeness auto
termination
proof (relation "measure (\<lambda>(wspot, conn, counter). length (items wspot))")
  show "wf (measure (\<lambda>(wspot, conn, counter). length (items wspot)))" by simp
next
  fix wspot :: "'c spot generator" and conn :: "'c connection" and counter :: nat
    and bulk wspot' y
  have consumed: "length (items w') + n = length (items w)"
    if "fill_bulk n w b = Full b' w'" for n and w w' :: "'c spot generator" and b b'
    using that by (induction n w b rule: fill_bulk.induct) auto
  assume "fill_bulk BULK_LENGTH wspot [] = Full bulk wspot'"
  from consumed [OF this]
  show "((wspot', y, counter + length bulk), (wspot, conn, counter))
        \<in> measure (\<lambda>(wspot, conn, counter). length (items wspot))"
    by (simp add: BULK_LENGTH_def)
qed

declare import_loop.simps [simp del]

section \<open>The environment of a run\<close>

text \<open>
  What ingest.py uses and does not define: the geo resolver, the decompressor
  (\<open>gzip.open\<close>, from the bytes of a file to the iterator over its lines), the network
  (\<open>urlopen\<close>, from a URL to a response or an exception), the clock (\<open>time.time\<close>, by
  reading number), the date (\<open>datetime.now\<close>, as year and month) and the constant
  \<open>TMP_DIR\<close>. A response has the length the server reported (\<open>resp.length\<close>, \<open>None\<close>
  when it reported none) and the successive results of \<open>resp.read(BUF_SIZE)\<close>; the end
  of that iterator stands for the empty result at the end of the body.
\<close>

record response =
  resp_length :: "nat option"
  resp_read :: "string generator"

record 'c env =
  geo_grid2latlon :: "'c resolver"
  gzip_open :: "string \<Rightarrow> string generator"
  urlopen :: "string \<Rightarrow> error + response"
  time_time :: "nat \<Rightarrow> real"
  datetime_now :: "int \<times> int"
  TMP_DIR :: string

section \<open>The timer (ingest.py, \<open>Timer\<close>)\<close>

text \<open>
  \<open>Timer.__exit__\<close>, with the floating-point numbers of the source as reals:
  \<open>int\<close> truncates towards zero, \<open>% 1\<close> is the fractional part, \<open>round(_, 3)\<close>
  rounds to the nearest thousandth and, of two that are equally near, to the even one.
  The rate is computed only when \<open>nb_lines\<close> is not zero.
\<close>

definition py_trunc :: "real \<Rightarrow> int" where
  "py_trunc x = (if 0 \<le> x then \<lfloor>x\<rfloor> else \<lceil>x\<rceil>)"

definition round_half_even :: "real \<Rightarrow> int" where
  "round_half_even x =
     (let f = \<lfloor>x\<rfloor>; d = x - of_int f
      in if d < 1 / 2 then f
         else if 1 / 2 < d then f + 1
         else if even f then f else f + 1)"

definition py_round3 :: "real \<Rightarrow> real" where
  "py_round3 x = of_int (round_half_even (x * 1000)) / 1000"

definition Timer_exit :: "string \<Rightarrow> nat \<Rightarrow> real \<Rightarrow> real \<Rightarrow> error + part list" where
  "Timer_exit title nb_lines start now =
     (let elapsed = now - start;
          milliseconds = py_round3 (elapsed - of_int \<lfloor>elapsed\<rfloor>) * 1000;
          minute = py_trunc elapsed div 60;
          sec = py_trunc elapsed mod 60;
          hour = minute div 60;
          minute = minute mod 60;
          message = [Title title]
            @ (if hour \<noteq> 0 then [Hours hour] else [])
            @ (if minute \<noteq> 0 then [Minutes minute] else [])
            @ [Seconds sec milliseconds]
      in if nb_lines \<noteq> 0
         then (if elapsed = 0 then Inl ZeroDivisionError
               else Inr (message @ [Items_per_second (of_nat nb_lines / elapsed)]))
         else Inr message)"

text \<open>
  \<open>with Timer(title, nb_lines): body\<close>. The clock is read on entry and on exit; the
  message is logged on every exit, and the body's exception goes through.
\<close>

definition Timer ::
  "'c env \<Rightarrow> string \<Rightarrow> nat \<Rightarrow> ('c world \<Rightarrow> 'c world \<times> (error + 'a)) \<Rightarrow> 'c world \<Rightarrow>
   'c world \<times> (error + 'a)" where
  "Timer env title nb_lines body w =
     (let start = time_time env (ticks w);
          (w1, r) = body (w\<lparr>ticks := Suc (ticks w)\<rparr>);
          now = time_time env (ticks w1);
          w2 = w1\<lparr>ticks := Suc (ticks w1)\<rparr>
      in case Timer_exit title nb_lines start now of
           Inl e \<Rightarrow> (w2, Inl e)
         | Inr message \<Rightarrow> (info (Timer_message message) w2, r))"

section \<open>The archive fetcher (ingest.py, \<open>download_archive\<close>)\<close>

definition digit_char :: "nat \<Rightarrow> char" where
  "digit_char n = char_of (48 + n)"

function str_nat :: "nat \<Rightarrow> string" where
  "str_nat n = (if n < 10 then [digit_char n] else str_nat (n div 10) @ [digit_char (n mod 10)])"
  by pat_completeness auto
termination
  by (relation "measure id") auto

declare str_nat.simps [simp del]

text \<open>The format \<open>{:4d}\<close>: the decimal digits, with blanks on the left up to four columns.\<close>

definition format_4d :: "int \<Rightarrow> string" where
  "format_4d i =
     (let s = (if i < 0 then CHR ''-'' # str_nat (nat (- i)) else str_nat (nat i))
      in replicate (4 - length s) CHR '' '' @ s)"

text \<open>The format \<open>{:02d}\<close>: the sign, then zeros up to two columns, then the digits.\<close>

definition format_02d :: "int \<Rightarrow> string" where
  "format_02d i =
     (let sign = (if i < 0 then [CHR ''-''] else []);
          digits = str_nat (nat \<bar>i\<bar>)
      in sign @ replicate (2 - (length sign + length digits)) CHR ''0'' @ digits)"

definition WSPR_ARCHIVE :: string where
  "WSPR_ARCHIVE = ''http://wsprnet.org/archive/''"

definition WSPR_FILE :: "int \<Rightarrow> int \<Rightarrow> string" where
  "WSPR_FILE year month = ''wsprspots-'' @ format_4d year @ ''-'' @ format_02d month @ ''.csv.gz''"

text \<open>\<open>os.path.join\<close> of a directory and a relative file name.\<close>

definition os_path_join :: "string \<Rightarrow> string \<Rightarrow> string" where
  "os_path_join path name =
     (if path = [] \<or> last path = CHR ''/'' then path @ name else path @ ''/'' @ name)"

text \<open>\<open>urljoin\<close> of a base that ends with a slash and a relative file name.\<close>

definition urljoin :: "string \<Rightarrow> string \<Rightarrow> string" where
  "urljoin base name = base @ name"

definition get_size :: "'c world \<Rightarrow> string \<Rightarrow> nat" where
  "get_size w filename = (case files w filename of None \<Rightarrow> 0 | Some data \<Rightarrow> length data)"

text \<open>
  \<open>for buffer in iter(partial(resp.read, BUF_SIZE), b''): fdout.write(buffer)\<close>: the
  loop stops at the first empty buffer; what was written before an exception stays
  in the file.
\<close>

fun write_buffers :: "string generator \<Rightarrow> string \<Rightarrow> string \<times> error option" where
  "write_buffers (Yield buffer rest) data =
     (if buffer = [] then (data, None) else write_buffers rest (data @ buffer))"
| "write_buffers StopIteration data = (data, None)"
| "write_buffers (Raise e) data = (data, Some e)"

text \<open>\<open>except URLError\<close> catches \<open>URLError\<close> and its subclass \<open>HTTPError\<close>.\<close>

fun is_URLError :: "error \<Rightarrow> bool" where
  "is_URLError URLError = True"
| "is_URLError (HTTPError code) = True"
| "is_URLError e = False"

text \<open>
  The body of the \<open>try\<close>: \<open>Inr False\<close> is its \<open>return None\<close>, \<open>Inr True\<close> its normal
  end. With \<open>force\<close> unset and no reported length, the comparison of \<open>None\<close> with an
  integer raises \<open>TypeError\<close>.
\<close>

definition download_try ::
  "'c env \<Rightarrow> string \<Rightarrow> string \<Rightarrow> bool \<Rightarrow> 'c world \<Rightarrow> 'c world \<times> (error + bool)" where
  "download_try env url target_path force w =
     (case urlopen env url of
        Inl e \<Rightarrow> (w, Inl e)
      | Inr resp \<Rightarrow>
          (case (if force then Inr False
                 else (case resp_length resp of
                         None \<Rightarrow> Inl TypeError
                       | Some l \<Rightarrow> Inr (l \<le> get_size w target_path))) of
             Inl e \<Rightarrow> (w, Inl e)
           | Inr True \<Rightarrow> (info (No_new_data url) w, Inr False)
           | Inr False \<Rightarrow>
               (let w1 = info (Downloading url) w;
                    (data, r) = write_buffers (resp_read resp) [];
                    w2 = w1\<lparr>files := (files w1)(target_path \<mapsto> data)\<rparr>
                in (w2, case r of None \<Rightarrow> Inr True | Some e \<Rightarrow> Inl e))))"

definition download_archive ::
  "'c env \<Rightarrow> string \<Rightarrow> int option \<Rightarrow> bool \<Rightarrow> 'c world \<Rightarrow> 'c world \<times> (error + string option)" where
  "download_archive env path month force w =
     (let (year, this_month) = datetime_now env;
          month = (case month of
                     None \<Rightarrow> this_month
                   | Some m \<Rightarrow> if m = 0 then this_month else m);
          target_file = WSPR_FILE year month;
          target_path = os_path_join path target_file;
          url = urljoin WSPR_ARCHIVE target_file
      in case download_try env url target_path force w of
           (w1, Inl err) \<Rightarrow>
             if is_URLError err then (info (HTTP_Error err) w1, Inr None)
             else (w1, Inl err)
         | (w1, Inr False) \<Rightarrow> (w1, Inr None)
         | (w1, Inr True) \<Rightarrow> (w1, Inr (Some target_path)))"

section \<open>The coordinator (ingest.py, \<open>wspr_import\<close> and \<open>main\<close>)\<close>

text \<open>
  \<open>wspr_import\<close>, on the database file of the state. The reader opens the file when
  the loop first asks for a record, inside the scope of the connection.
\<close>

definition wspr_import ::
  "'c env \<Rightarrow> string \<Rightarrow> int \<Rightarrow> 'c world \<Rightarrow> 'c world \<times> (error + unit)" where
  "wspr_import env filename start_id w =
     (let zfd = (case files w filename of
                   None \<Rightarrow> Raise FileNotFoundError
                 | Some data \<Rightarrow> gzip_open env data);
          wspot = read_spots (geo_grid2latlon env) zfd start_id
      in case DBConnect (\<lambda>conn. import_loop wspot conn 0) w of
           (w1, Inl e) \<Rightarrow> (w1, Inl e)
         | (w1, Inr counter) \<Rightarrow> (info (Records_processed counter) w1, Inr ()))"

record opts =
  opt_force :: bool
  opt_filename :: "string option"
  opt_month :: "int option"

text \<open>Lines 136-140 of \<open>main\<close>: the file to import, given or downloaded.\<close>

definition main_filename ::
  "'c env \<Rightarrow> opts \<Rightarrow> 'c world \<Rightarrow> 'c world \<times> (error + string option)" where
  "main_filename env opts w =
     (if opt_filename opts \<noteq> None \<and> opt_filename opts \<noteq> Some []
      then (w, Inr (opt_filename opts))
      else Timer env ''Download archive'' 0
             (download_archive env (TMP_DIR env) (opt_month opts) (opt_force opts)) w)"

text \<open>Lines 146-156 of \<open>main\<close>: the database is created, or asked for its watermark.\<close>

definition main_last_id :: "'c world \<Rightarrow> 'c world \<times> (error + int)" where
  "main_last_id w =
     (let w1 = info Database w in
      if database_file w1 = None
      then (case create_db w1 of
              (w2, Inl e) \<Rightarrow> (w2, Inl e)
            | (w2, Inr _) \<Rightarrow> (w2, Inr 0))
      else (case DBConnect select_max (info Counting_records w1) of
              (w2, Inl e) \<Rightarrow> (w2, Inl e)
            | (w2, Inr result) \<Rightarrow>
                (let last_id = (case result of None \<Rightarrow> 0 | Some n \<Rightarrow> n)
                 in (info (Last_id last_id) w2, Inr last_id))))"

definition main :: "'c env \<Rightarrow> opts \<Rightarrow> 'c world \<Rightarrow> 'c world \<times> (error + unit)" where
  "main env opts w =
     (case main_filename env opts w of
        (w1, Inl e) \<Rightarrow> (w1, Inl e)
      | (w1, Inr filename) \<Rightarrow>
          (case (case filename of
                   None \<Rightarrow> None
                 | Some f \<Rightarrow> if f = [] \<or> files w1 f = None then None else Some f) of
             None \<Rightarrow> (warning Nothing_to_import w1, Inr ())
           | Some f \<Rightarrow>
               (case main_last_id w1 of
                  (w2, Inl e) \<Rightarrow> (w2, Inl e)
                | (w2, Inr last_id) \<Rightarrow>
                    (case Timer env ''Import WSPR'' 0 (wspr_import env f last_id)
                            (info (Importing f) w2) of
                       (w3, Inl e) \<Rightarrow> (w3, Inl e)
                     | (w3, Inr _) \<Rightarrow> (info Cache_info w3, Inr ())))))"


section \<open>Notions used in the statements\<close>

text \<open>
  The id of a record as the reader reads it, \<open>int\<close> of its first value. The fields
  of a line as the reader splits it, the integer in its first field (when it is one),
  and whether that integer lies above a watermark.
\<close>

definition spot_id :: "'c spot \<Rightarrow> int option" where
  "spot_id r =
     (case r of
        Str s # _ \<Rightarrow> (case py_int s of Inl _ \<Rightarrow> None | Inr n \<Rightarrow> Some n)
      | _ \<Rightarrow> None)"

definition line_fields :: "string \<Rightarrow> string list" where
  "line_fields line = str_split CHR '','' (rstrip line)"

definition line_id :: "string \<Rightarrow> int option" where
  "line_id line = (case py_int (hd (line_fields line)) of Inl e \<Rightarrow> None | Inr n \<Rightarrow> Some n)"

definition is_above :: "int \<Rightarrow> string \<Rightarrow> bool" where
  "is_above start_id line = (case line_id line of None \<Rightarrow> False | Some n \<Rightarrow> start_id < n)"

text \<open>
  The number of lines the reader gets through: all of them, or those before the line
  at which it raises.
\<close>

fun lines_read :: "'c resolver \<Rightarrow> string generator \<Rightarrow> int \<Rightarrow> nat" where
  "lines_read g (Yield l zfd) start_id =
     (case read_line g start_id l of
        Inl e \<Rightarrow> 0
      | Inr _ \<Rightarrow> Suc (lines_read g zfd start_id))"
| "lines_read g StopIteration start_id = 0"
| "lines_read g (Raise e) start_id = 0"

subsection \<open>Example inputs\<close>

text \<open>
  A resolver that accepts four-character locators, a line of the archive, and an
  archive of three lines with the ids 10, 11 and 12.
\<close>

definition example_resolver :: "int resolver" where
  "example_resolver f =
     (case f of
        Str s \<Rightarrow>
          if length s = 4 then Inr (int (of_char (s ! 0)), int (of_char (s ! 1)))
          else Inl ResolverError
      | Num c \<Rightarrow> Inl TypeError)"

definition example_line :: "string \<Rightarrow> string" where
  "example_line i =
     i @ '',1700000000,K1ABC,FN20,-12,14.0971,W6BSD,CM87,37,0,4100,280,14,2.6,1'' @ [CHR 0x0A]"

definition example_archive :: "string generator" where
  "example_archive = generator_of [example_line ''10'', example_line ''11'', example_line ''12'']"

definition example_spot :: "string \<Rightarrow> int spot" where
  "example_spot i =
     map Str [i, ''1700000000'', ''K1ABC'', ''FN20'', ''-12'', ''14.0971'', ''W6BSD'', ''CM87'',
              ''37'', ''0'', ''4100'', ''280'', ''14'', ''2.6'', ''1'']
     @ [Num 70, Num 78, Num 67, Num 77]"



text \<open>
  The file, the URL and the local path that \<open>download_archive\<close> computes (lines 75
  to 80), as functions of the date and of the month asked for.
\<close>

definition target_month :: "'c env \<Rightarrow> int option \<Rightarrow> int" where
  "target_month env month =
     (case month of
        None \<Rightarrow> snd (datetime_now env)
      | Some m \<Rightarrow> if m = 0 then snd (datetime_now env) else m)"

definition target_file :: "'c env \<Rightarrow> int option \<Rightarrow> string" where
  "target_file env month = WSPR_FILE (fst (datetime_now env)) (target_month env month)"

definition target_url :: "'c env \<Rightarrow> int option \<Rightarrow> string" where
  "target_url env month = urljoin WSPR_ARCHIVE (target_file env month)"

definition target_path :: "'c env \<Rightarrow> string \<Rightarrow> int option \<Rightarrow> string" where
  "target_path env path month = os_path_join path (target_file env month)"

text \<open>
  The body of a response as the loop of \<open>download_archive\<close> receives it: the buffers
  that \<open>resp.read\<close> returns before the first empty one, one after the other; and the
  exception, if any, that \<open>resp.read\<close> raises before it returns an empty buffer.
\<close>

definition received :: "response \<Rightarrow> string" where
  "received resp = concat (takeWhile (\<lambda>buffer. buffer \<noteq> []) (items (resp_read resp)))"

definition read_raises :: "response \<Rightarrow> error option" where
  "read_raises resp =
     (if list_ex (\<lambda>buffer. buffer = []) (items (resp_read resp)) then None
      else outcome (resp_read resp))"

text \<open>What a call has logged: the entries of the later state that the earlier lacks.\<close>

definition new_log :: "'c world \<Rightarrow> 'c world \<Rightarrow> (level \<times> message) list" where
  "new_log w w' = drop (length (logged w)) (logged w')"

definition new_calls :: "'c world \<Rightarrow> 'c world \<Rightarrow> 'c call list" where
  "new_calls w w' = drop (length (db_calls w)) (db_calls w')"

text \<open>
  The exception, if any, with which the \<open>try\<close> block of \<open>download_archive\<close> ends
  in a run of \<open>main\<close> that was given no file.
\<close>

definition fetch_raises :: "'c env \<Rightarrow> opts \<Rightarrow> 'c world \<Rightarrow> error option" where
  "fetch_raises env opts w =
     (case snd (download_try env (target_url env (opt_month opts))
                  (target_path env (TMP_DIR env) (opt_month opts)) (opt_force opts) w) of
        Inl e \<Rightarrow> Some e
      | Inr _ \<Rightarrow> None)"

text \<open>
  An environment for the examples: the date is March 2026, the server holds the
  archive of November 2026 (seven bytes, delivered in two buffers) and answers 404 for
  every other URL, the decompressor turns the bytes \<open>ARCHIVE\<close> into the example
  archive, and the clock advances by three seconds from one reading to the next.
\<close>

definition example_response :: response where
  "example_response = \<lparr>resp_length = Some 7, resp_read = generator_of [''ARCH'', ''IVE'']\<rparr>"

definition example_env :: "int env" where
  "example_env =
     \<lparr>geo_grid2latlon = example_resolver,
      gzip_open = (\<lambda>data. if data = ''ARCHIVE'' then example_archive else Raise GzipError),
      urlopen = (\<lambda>url. if url = ''http://wsprnet.org/archive/wsprspots-2026-11.csv.gz''
                         then Inr example_response else Inl (HTTPError 404)),
      time_time = (\<lambda>n. 3 * real n),
      datetime_now = (2026, 3),
      TMP_DIR = ''/tmp''\<rparr>"

text \<open>The same, but the server answers every URL with that response.\<close>

definition example_env_any_url :: "int env" where
  "example_env_any_url = example_env\<lparr>urlopen := (\<lambda>url. Inr example_response)\<rparr>"

text \<open>The same, but the connection is reset after the first buffer of the body.\<close>

definition example_env_reset :: "int env" where
  "example_env_reset =
     example_env\<lparr>urlopen := (\<lambda>url. Inr \<lparr>resp_length = Some 7,
        resp_read = Yield ''ARCH'' (Raise ConnectionResetError)\<rparr>)\<rparr>"

text \<open>
  A state with the example archive in the file \<open>archive.gz\<close> and no database, and
  the options \<open>--filename archive.gz\<close>, \<open>--month 11\<close> and none.
\<close>

definition example_world :: "int world" where
  "example_world =
     \<lparr>files = [''archive.gz'' \<mapsto> ''ARCHIVE''], database_file = None, logged = [],
      ticks = 0, db_calls = []\<rparr>"

definition example_opts_file :: opts where
  "example_opts_file = \<lparr>opt_force = False, opt_filename = Some ''archive.gz'', opt_month = None\<rparr>"

definition example_opts_month :: opts where
  "example_opts_month = \<lparr>opt_force = False, opt_filename = None, opt_month = Some 11\<rparr>"

definition example_opts_none :: opts where
  "example_opts_none = \<lparr>opt_force = False, opt_filename = None, opt_month = None\<rparr>"


text \<open>
  A list cut into consecutive batches of \<open>n\<close> elements, the last one shorter when
  the length is not a multiple of \<open>n\<close>: there are \<open>\<lceil>length xs / n\<rceil>\<close> of them.
\<close>

definition batches :: "nat \<Rightarrow> 'a list \<Rightarrow> 'a list list" where
  "batches n xs = map (\<lambda>i. take n (drop (i * n) xs)) [0..<(length xs + n - 1) div n]"

text \<open>
  The line iterator and the record iterator of a run of \<open>wspr_import\<close>, the rows of
  the database file, and, of a list of calls, the number of commits, the batches handed
  to \<open>executemany\<close> and those among them that were inserted without an exception.
\<close>

definition opened :: "'c env \<Rightarrow> 'c world \<Rightarrow> string \<Rightarrow> string generator" where
  "opened env w filename =
     (case files w filename of
        None \<Rightarrow> Raise FileNotFoundError
      | Some data \<Rightarrow> gzip_open env data)"

definition spots :: "'c env \<Rightarrow> 'c world \<Rightarrow> string \<Rightarrow> int \<Rightarrow> 'c spot generator" where
  "spots env w filename start_id =
     read_spots (geo_grid2latlon env) (opened env w filename) start_id"

definition rows_of :: "'c world \<Rightarrow> 'c spot list" where
  "rows_of w = (case database_file w of None \<Rightarrow> [] | Some db \<Rightarrow> wspr db)"

definition commits :: "'c call list \<Rightarrow> nat" where
  "commits cs = length (filter (\<lambda>c. c = Commit) cs)"

fun executed :: "'c call list \<Rightarrow> 'c spot list list" where
  "executed [] = []"
| "executed (ExecuteMany b r # cs) = b # executed cs"
| "executed (c # cs) = executed cs"

fun written :: "'c call list \<Rightarrow> 'c spot list list" where
  "written [] = []"
| "written (ExecuteMany b None # cs) = b # written cs"
| "written (c # cs) = written cs"

definition tables_of :: "'c world \<Rightarrow> (string \<times> string list) list" where
  "tables_of w = (case database_file w of None \<Rightarrow> [] | Some db \<Rightarrow> tables db)"

text \<open>
  More example states: the example state after \<open>create_db\<close>; a state whose archive is
  empty; one whose archive holds the id 11 twice; one with no database whose archive
  holds the ids 10, 11, 11 and 12; one whose archive holds the ids 5, \<open>1_0\<close> (which
  \<open>int\<close> reads as 10 and the engine refuses as a key) and 12; and one whose database
  already holds a record with the id 100.
\<close>

definition example_world_created :: "int world" where
  "example_world_created = fst (create_db example_world)"

definition example_world_empty :: "int world" where
  "example_world_empty = example_world_created\<lparr>files := [''archive.gz'' \<mapsto> ''EMPTY'']\<rparr>"

definition example_env_more :: "int env" where
  "example_env_more =
     example_env\<lparr>gzip_open := (\<lambda>data.
        if data = ''ARCHIVE'' then example_archive
        else if data = ''EMPTY'' then StopIteration
        else if data = ''TWICE''
          then generator_of [example_line ''10'', example_line ''11'', example_line ''11'']
        else if data = ''AGAIN''
          then generator_of [example_line ''10'', example_line ''11'', example_line ''11'',
                             example_line ''12'']
        else if data = ''MISMATCH''
          then generator_of [example_line ''5'', example_line ''1_0'', example_line ''12'']
        else Raise GzipError)\<rparr>"


definition example_world_again :: "int world" where
  "example_world_again = example_world\<lparr>files := [''archive.gz'' \<mapsto> ''AGAIN'']\<rparr>"


definition example_world_later :: "int world" where
  "example_world_later =
     example_world\<lparr>database_file :=
       Some ((the (database_file example_world_created))\<lparr>wspr := [example_spot ''100'']\<rparr>)\<rparr>"

text \<open>
  The watermark of a state: what \<open>main\<close> computes from \<open>SELECT MAX(spot_id)\<close>, 0 when
  the table holds no id.
\<close>

definition watermark :: "'c world \<Rightarrow> int" where
  "watermark w = (case list_max (spot_ids (rows_of w)) of None \<Rightarrow> 0 | Some m \<Rightarrow> m)"

text \<open>
  Lines 146 to 162 of \<open>main\<close>: what a run does once it has a file. The state after
  lines 136 to 140, the file that a run imports from (none when the fetcher raises or
  the run logs \<open>Nothing to import\<close>), and the lines of that file.
\<close>

definition import_phase :: "'c env \<Rightarrow> string \<Rightarrow> 'c world \<Rightarrow> 'c world \<times> (error + unit)" where
  "import_phase env f w =
     (case main_last_id w of
        (w2, Inl e) \<Rightarrow> (w2, Inl e)
      | (w2, Inr last_id) \<Rightarrow>
          (case Timer env ''Import WSPR'' 0 (wspr_import env f last_id)
                  (info (Importing f) w2) of
             (w3, Inl e) \<Rightarrow> (w3, Inl e)
           | (w3, Inr _) \<Rightarrow> (info Cache_info w3, Inr ())))"

definition fetched :: "'c env \<Rightarrow> opts \<Rightarrow> 'c world \<Rightarrow> 'c world" where
  "fetched env opts w = fst (main_filename env opts w)"

definition imported_file :: "'c env \<Rightarrow> opts \<Rightarrow> 'c world \<Rightarrow> string option" where
  "imported_file env opts w =
     (case snd (main_filename env opts w) of
        Inl e \<Rightarrow> None
      | Inr None \<Rightarrow> None
      | Inr (Some f) \<Rightarrow>
          if f = [] \<or> files (fetched env opts w) f = None then None else Some f)"

definition archive_lines :: "'c env \<Rightarrow> opts \<Rightarrow> 'c world \<Rightarrow> string list" where
  "archive_lines env opts w =
     (case imported_file env opts w of
        None \<Rightarrow> []
      | Some f \<Rightarrow> items (opened env (fetched env opts w) f))"

text \<open>
  The example states after a run: of \<open>main\<close> with the given file, of \<open>main\<close> with
  the month 11, and of \<open>main\<close> on the archive with the ids 10, 11, 11 and 12.
\<close>

definition example_world_imported :: "int world" where
  "example_world_imported = fst (main example_env example_opts_file example_world)"

definition example_world_downloaded :: "int world" where
  "example_world_downloaded = fst (main example_env example_opts_month example_world)"

definition example_world_aborted :: "int world" where
  "example_world_aborted = fst (main example_env_more example_opts_file example_world_again)"

text \<open>
  Large examples. \<open>prepend\<close> puts a list in front of an iterator. The line and the
  record with id \<open>n\<close>; the ids 1 to 1000; an archive of 1001 lines with the ids 1
  to 1001; and an archive of the 1000 lines with the ids 1 to 1000 followed by a line
  that is not a record.
\<close>

fun prepend :: "'a list \<Rightarrow> 'a generator \<Rightarrow> 'a generator" where
  "prepend [] g = g"
| "prepend (x # xs) g = Yield x (prepend xs g)"

definition big_line :: "nat \<Rightarrow> string" where
  "big_line n = example_line (str_nat n)"

definition big_spot :: "nat \<Rightarrow> int spot" where
  "big_spot n = example_spot (str_nat n)"

definition big_ids :: "nat list" where
  "big_ids = [1..<1001]"

definition big_archive :: "string generator" where
  "big_archive = prepend (map big_line big_ids) (Yield (big_line 1001) StopIteration)"

definition cut_archive :: "string generator" where
  "cut_archive = prepend (map big_line big_ids) (Yield ''x'' StopIteration)"

definition example_env_big :: "int env" where
  "example_env_big =
     example_env\<lparr>gzip_open := (\<lambda>data.
        if data = ''BIG'' then big_archive
        else if data = ''CUT'' then cut_archive
        else Raise GzipError)\<rparr>"

definition example_world_big :: "int world" where
  "example_world_big = example_world_created\<lparr>files := [''archive.gz'' \<mapsto> ''BIG'']\<rparr>"



section \<open>The spot reader\<close>

lemma str_split_not_Nil: "str_split sep s \<noteq> []"
  by (induction s) (auto split: list.splits)

lemma getitem_0: "getitem (str_split sep s) 0 = Inr (hd (str_split sep s))"
  using str_split_not_Nil [of sep s]
  by (cases "str_split sep s") (auto simp: getitem_def)

lemma line_fields_Cons: "\<exists>f fs. line_fields l = f # fs"
  using str_split_not_Nil [of "CHR '',''" "rstrip l"]
  by (cases "line_fields l") (auto simp: line_fields_def)

lemma read_line_cases:
  "read_line g sid l =
     (case py_int (hd (line_fields l)) of
        Inl e \<Rightarrow> Inl e
      | Inr n \<Rightarrow>
          if n \<le> sid then Inr None
          else
            (case getitem (line_fields l) 3 of
               Inl e \<Rightarrow> Inl e
             | Inr tx \<Rightarrow>
                 (case g (Str tx) of
                    Inl e \<Rightarrow> Inl e
                  | Inr (tx_lat, tx_lon) \<Rightarrow>
                      (case getitem (map Str (line_fields l) @ [Num tx_lat, Num tx_lon]) 7 of
                         Inl e \<Rightarrow> Inl e
                       | Inr rx \<Rightarrow>
                           (case g rx of
                              Inl e \<Rightarrow> Inl e
                            | Inr (rx_lat, rx_lon) \<Rightarrow>
                                Inr (Some ((map Str (line_fields l) @ [Num tx_lat, Num tx_lon])
                                           @ [Num rx_lat, Num rx_lon])))))))"
  unfolding read_line_def line_fields_def Let_def getitem_0 by simp

lemma read_line_skip: "read_line g sid l = Inr None \<Longrightarrow> \<not> is_above sid l"
  by (simp add: read_line_cases is_above_def line_id_def split: sum.splits if_splits prod.splits)

lemma read_line_skip_id:
  "read_line g sid l = Inr None \<Longrightarrow> \<exists>n. line_id l = Some n \<and> n \<le> sid"
  by (simp add: read_line_cases line_id_def split: sum.splits if_splits prod.splits)

lemma read_line_yield:
  assumes "read_line g sid l = Inr (Some r)"
  shows "\<exists>n tx tx_lat tx_lon rx rx_lat rx_lon.
     py_int (hd (line_fields l)) = Inr n \<and> sid < n
     \<and> getitem (line_fields l) 3 = Inr tx \<and> g (Str tx) = Inr (tx_lat, tx_lon)
     \<and> getitem (map Str (line_fields l) @ [Num tx_lat, Num tx_lon]) 7 = Inr rx
     \<and> g rx = Inr (rx_lat, rx_lon)
     \<and> r = map Str (line_fields l) @ [Num tx_lat, Num tx_lon, Num rx_lat, Num rx_lon]"
  using assms
  by (simp add: read_line_cases split: sum.splits if_splits prod.splits)

lemma read_line_yield_id:
  assumes "read_line g sid l = Inr (Some r)"
  shows "\<exists>n. spot_id r = Some n \<and> line_id l = Some n \<and> sid < n"
proof -
  obtain f fs where f: "line_fields l = f # fs"
    using line_fields_Cons by blast
  from read_line_yield [OF assms] f show ?thesis
    by (clarsimp simp: spot_id_def line_id_def)
qed

lemma read_line_yield_above: "read_line g sid l = Inr (Some r) \<Longrightarrow> is_above sid l"
  using read_line_yield_id [of g sid l r] by (auto simp: is_above_def)

lemma lines_read_le: "lines_read g zfd sid \<le> length (items zfd)"
  by (induction zfd) (auto split: sum.splits)

lemma read_spots_prefix:
  "list_all2 (\<lambda>r l. read_line g sid l = Inr (Some r))
     (items (read_spots g zfd sid))
     (filter (is_above sid) (take (lines_read g zfd sid) (items zfd)))"
proof (induction zfd)
  case (Yield l zfd)
  show ?case
  proof (cases "read_line g sid l")
    case (Inl e)
    then show ?thesis by simp
  next
    case (Inr res)
    show ?thesis
    proof (cases res)
      case None
      with Inr Yield read_line_skip [of g sid l] show ?thesis by simp
    next
      case (Some r)
      with Inr Yield read_line_yield_above [of g sid l r] show ?thesis by simp
    qed
  qed
qed simp_all

lemma read_spots_outcome_None:
  "outcome (read_spots g zfd sid) = None \<Longrightarrow>
     lines_read g zfd sid = length (items zfd) \<and> outcome zfd = None"
  by (induction zfd) (auto split: sum.splits option.splits)

lemma read_spots_outcome_Some:
  "outcome (read_spots g zfd sid) = Some e \<Longrightarrow>
     (lines_read g zfd sid = length (items zfd) \<and> outcome zfd = Some e) \<or>
     (lines_read g zfd sid < length (items zfd) \<and>
        read_line g sid (items zfd ! lines_read g zfd sid) = Inl e)"
  by (induction zfd) (auto split: sum.splits option.splits)

lemma list_all2_in_set:
  "list_all2 P xs ys \<Longrightarrow> x \<in> set xs \<Longrightarrow> \<exists>y \<in> set ys. P x y"
  by (induction rule: list_all2_induct) auto

lemma read_spots_item_line:
  assumes "r \<in> set (items (read_spots g zfd sid))"
  shows "\<exists>l \<in> set (items zfd). read_line g sid l = Inr (Some r)"
proof -
  from list_all2_in_set [OF read_spots_prefix assms]
  obtain l where l: "l \<in> set (filter (is_above sid) (take (lines_read g zfd sid) (items zfd)))"
    and r: "read_line g sid l = Inr (Some r)"
    by blast
  from l have "l \<in> set (items zfd)"
    by (auto dest: in_set_takeD)
  with r show ?thesis by blast
qed

text \<open>
  Claim C5. Whatever the archive and the watermark, the records the reader yields are,
  one for one and in the order of the file, the records of the lines whose first field
  \<open>int\<close> reads as an integer above the watermark, among the lines the reader got
  through; every yielded record has an id above the watermark; and when the reader
  reaches the end of the archive without raising, the lines it got through are all the
  lines, so no line above the watermark is left out.
\<close>

theorem read_spots_above_watermark:
  "list_all2 (\<lambda>r l. read_line g start_id l = Inr (Some r))
     (items (read_spots g zfd start_id))
     (filter (is_above start_id) (take (lines_read g zfd start_id) (items zfd)))
   \<and> (\<forall>r \<in> set (items (read_spots g zfd start_id)).
          \<exists>n. spot_id r = Some n \<and> start_id < n)
   \<and> (outcome (read_spots g zfd start_id) = None \<longrightarrow>
          list_all2 (\<lambda>r l. read_line g start_id l = Inr (Some r))
            (items (read_spots g zfd start_id))
            (filter (is_above start_id) (items zfd)))"
proof (intro conjI ballI impI)
  show "list_all2 (\<lambda>r l. read_line g start_id l = Inr (Some r))
     (items (read_spots g zfd start_id))
     (filter (is_above start_id) (take (lines_read g zfd start_id) (items zfd)))"
    by (rule read_spots_prefix)
next
  fix r assume "r \<in> set (items (read_spots g zfd start_id))"
  from read_spots_item_line [OF this] obtain l
    where "read_line g start_id l = Inr (Some r)" by blast
  from read_line_yield_id [OF this]
  show "\<exists>n. spot_id r = Some n \<and> start_id < n" by blast
next
  assume "outcome (read_spots g zfd start_id) = None"
  from read_spots_outcome_None [OF this] read_spots_prefix [of g start_id zfd]
  show "list_all2 (\<lambda>r l. read_line g start_id l = Inr (Some r))
          (items (read_spots g zfd start_id)) (filter (is_above start_id) (items zfd))"
    by simp
qed

section \<open>The archive fetcher\<close>

lemma download_archive_unfold:
  "download_archive env path month force w =
     (case download_try env (target_url env month) (target_path env path month) force w of
        (w1, Inl err) \<Rightarrow>
          if is_URLError err then (info (HTTP_Error err) w1, Inr None) else (w1, Inl err)
      | (w1, Inr False) \<Rightarrow> (w1, Inr None)
      | (w1, Inr True) \<Rightarrow> (w1, Inr (Some (target_path env path month))))"
  unfolding download_archive_def target_url_def target_path_def target_file_def
    target_month_def Let_def
  by (cases "datetime_now env"; cases month;
      simp split: prod.splits sum.splits bool.splits)

lemma download_try_env:
  "urlopen env' url = urlopen env url \<Longrightarrow>
     download_try env' url p force w = download_try env url p force w"
  by (simp add: download_try_def)

text \<open>
  Claim C10. \<open>download_archive\<close> has no year among its arguments. The file it targets
  is \<open>wsprspots-\<close>, the year of the current date in the format \<open>{:4d}\<close>, a hyphen, the
  month in the format \<open>{:02d}\<close>, \<open>.csv.gz\<close>, where the month is the one asked for, or
  the current one when none (or 0) is asked for. That file under \<open>WSPR_ARCHIVE\<close> is
  the only URL the fetcher consults: another network that answers this URL alike
  gives the same run. The path it returns, when it returns one, is that file in the
  directory it was given.
\<close>

theorem download_archive_current_year:
  "target_file env month
     = ''wsprspots-'' @ format_4d (fst (datetime_now env)) @ ''-''
       @ format_02d (case month of
                       None \<Rightarrow> snd (datetime_now env)
                     | Some m \<Rightarrow> if m = 0 then snd (datetime_now env) else m)
       @ ''.csv.gz''
   \<and> (datetime_now env' = datetime_now env
        \<and> urlopen env' (urljoin WSPR_ARCHIVE (target_file env month))
            = urlopen env (urljoin WSPR_ARCHIVE (target_file env month))
      \<longrightarrow> download_archive env' path month force w = download_archive env path month force w)
   \<and> (\<forall>p. snd (download_archive env path month force w) = Inr (Some p)
          \<longrightarrow> p = os_path_join path (target_file env month))"
proof (intro conjI impI allI)
  show "target_file env month
     = ''wsprspots-'' @ format_4d (fst (datetime_now env)) @ ''-''
       @ format_02d (case month of
                       None \<Rightarrow> snd (datetime_now env)
                     | Some m \<Rightarrow> if m = 0 then snd (datetime_now env) else m)
       @ ''.csv.gz''"
    by (simp add: target_file_def target_month_def WSPR_FILE_def)
next
  assume same: "datetime_now env' = datetime_now env
        \<and> urlopen env' (urljoin WSPR_ARCHIVE (target_file env month))
            = urlopen env (urljoin WSPR_ARCHIVE (target_file env month))"
  then have names: "target_url env' month = target_url env month"
    "target_path env' path month = target_path env path month"
    by (cases month; simp add: target_url_def target_path_def target_file_def target_month_def)+
  from same have "urlopen env' (target_url env month) = urlopen env (target_url env month)"
    by (simp add: target_url_def)
  from download_try_env [OF this] names
  show "download_archive env' path month force w = download_archive env path month force w"
    by (simp add: download_archive_unfold split: prod.splits sum.splits bool.splits)
next
  fix p
  assume "snd (download_archive env path month force w) = Inr (Some p)"
  then show "p = os_path_join path (target_file env month)"
    by (auto simp: download_archive_unfold target_path_def
        split: prod.splits sum.splits bool.splits if_splits)
qed

lemma get_size_info [simp]: "get_size (info m w) p = get_size w p"
  by (simp add: get_size_def info_def)

lemma write_buffers_received:
  "write_buffers g data
     = (data @ concat (takeWhile (\<lambda>buffer. buffer \<noteq> []) (items g)),
        if list_ex (\<lambda>buffer. buffer = []) (items g) then None else outcome g)"
  by (induction g arbitrary: data) auto

lemma download_try_downloads:
  assumes "urlopen env url = Inr resp"
    and "force \<or> (\<exists>l. resp_length resp = Some l \<and> get_size w p < l)"
  shows "download_try env url p force w
     = ((info (Downloading url) w)\<lparr>files := (files w)(p \<mapsto> received resp)\<rparr>,
        case read_raises resp of None \<Rightarrow> Inr True | Some e \<Rightarrow> Inl e)"
  using assms
  by (auto simp: download_try_def write_buffers_received received_def read_raises_def info_def
      Let_def)

lemma download_try_no_new_data:
  assumes "urlopen env url = Inr resp" and "\<not> force"
    and "resp_length resp = Some l" and "l \<le> get_size w p"
  shows "download_try env url p force w = (info (No_new_data url) w, Inr False)"
  using assms by (simp add: download_try_def)


section \<open>Network errors\<close>

lemma Timer_exit_without_lines:
  "Timer_exit title 0 start now = Inr parts \<Longrightarrow> Items_per_second rate \<notin> set parts"
  by (auto simp: Timer_exit_def Let_def)

lemma Timer_exit_returns: "\<exists>parts. Timer_exit title 0 start now = Inr parts"
  by (simp add: Timer_exit_def Let_def)

lemma Timer_without_lines:
  "\<exists>parts. (\<forall>rate. Items_per_second rate \<notin> set parts)
     \<and> Timer env title 0 body w =
         (info (Timer_message parts)
            ((fst (body (w\<lparr>ticks := Suc (ticks w)\<rparr>)))
               \<lparr>ticks := Suc (ticks (fst (body (w\<lparr>ticks := Suc (ticks w)\<rparr>))))\<rparr>),
          snd (body (w\<lparr>ticks := Suc (ticks w)\<rparr>)))"
proof -
  obtain w1 r where body: "body (w\<lparr>ticks := Suc (ticks w)\<rparr>) = (w1, r)"
    by (cases "body (w\<lparr>ticks := Suc (ticks w)\<rparr>)") auto
  obtain parts where
    parts: "Timer_exit title 0 (time_time env (ticks w)) (time_time env (ticks w1)) = Inr parts"
    using Timer_exit_returns by blast
  from Timer_exit_without_lines [OF parts] have "\<forall>rate. Items_per_second rate \<notin> set parts"
    by blast
  moreover from body parts
  have "Timer env title 0 body w = (info (Timer_message parts) (w1\<lparr>ticks := Suc (ticks w1)\<rparr>), r)"
    by (simp add: Timer_def Let_def)
  ultimately show ?thesis using body by auto
qed

lemma download_try_frame:
  assumes "download_try env url p force w = (w', r)"
  shows "database_file w' = database_file w" and "db_calls w' = db_calls w"
    and "ticks w' = ticks w"
    and "\<exists>entries. logged w' = logged w @ entries
           \<and> set entries \<subseteq> {(INFO, No_new_data url), (INFO, Downloading url)}"
  using assms
  by (auto simp: download_try_def info_def Let_def
      split: sum.splits option.splits if_splits bool.splits prod.splits)

lemma download_try_ticks:
  "snd (download_try env url p force (w\<lparr>ticks := t\<rparr>)) = snd (download_try env url p force w)"
  by (auto simp: download_try_def info_def get_size_def Let_def
      split: sum.splits option.splits if_splits bool.splits prod.splits)

text \<open>
  Claim C9, as amended. In a run that was given no file, when the \<open>try\<close> block of the
  fetcher ends with a \<open>URLError\<close> (or its subclass \<open>HTTPError\<close>), raised by the
  existence check or while the body is read, the fetcher logs it and returns no
  path, and the run logs \<open>Nothing to import\<close> last and returns normally: the database
  file is as it was, no connection was opened, and no record count is logged. When the
  block ends with any other exception, the fetcher does not catch it: the run ends with
  that exception, and neither the error nor \<open>Nothing to import\<close> is logged.
\<close>

theorem main_recovers_URLError:
  assumes "opt_filename opts = None \<or> opt_filename opts = Some []"
    and "fetch_raises env opts w = Some e"
  shows "(is_URLError e \<longrightarrow>
      (\<exists>w'. main env opts w = (w', Inr ())
         \<and> (INFO, HTTP_Error e) \<in> set (new_log w w')
         \<and> last (logged w') = (WARNING, Nothing_to_import)
         \<and> database_file w' = database_file w
         \<and> db_calls w' = db_calls w
         \<and> (\<forall>n. (INFO, Records_processed n) \<notin> set (new_log w w'))))
    \<and> (\<not> is_URLError e \<longrightarrow>
      (\<exists>w'. main env opts w = (w', Inl e)
         \<and> (\<forall>err. (INFO, HTTP_Error err) \<notin> set (new_log w w'))
         \<and> (WARNING, Nothing_to_import) \<notin> set (new_log w w')
         \<and> database_file w' = database_file w
         \<and> db_calls w' = db_calls w
         \<and> (\<forall>n. (INFO, Records_processed n) \<notin> set (new_log w w'))))"
proof -
  define w0 where "w0 = w\<lparr>ticks := Suc (ticks w)\<rparr>"
  define url where "url = target_url env (opt_month opts)"
  define p where "p = target_path env (TMP_DIR env) (opt_month opts)"
  obtain w1 r where tried: "download_try env url p (opt_force opts) w0 = (w1, r)"
    by (cases "download_try env url p (opt_force opts) w0") auto
  have "snd (download_try env url p (opt_force opts) w0)
      = snd (download_try env url p (opt_force opts) w)"
    unfolding w0_def by (rule download_try_ticks)
  with assms(2) tried have r: "r = Inl e"
    by (auto simp: fetch_raises_def url_def p_def split: sum.splits)
  from download_try_frame [OF tried] obtain entries where
    frame: "database_file w1 = database_file w" "db_calls w1 = db_calls w"
    and entries: "logged w1 = logged w @ entries"
      "set entries \<subseteq> {(INFO, No_new_data url), (INFO, Downloading url)}"
    by (auto simp: w0_def)
  show ?thesis
  proof (intro conjI impI)
    assume caught: "is_URLError e"
    with tried r
    have fetch: "download_archive env (TMP_DIR env) (opt_month opts) (opt_force opts) w0
        = (info (HTTP_Error e) w1, Inr None)"
      by (simp add: download_archive_unfold url_def p_def)
    obtain parts where
      timer: "Timer env ''Download archive'' 0
          (download_archive env (TMP_DIR env) (opt_month opts) (opt_force opts)) w
        = (info (Timer_message parts)
             ((info (HTTP_Error e) w1)\<lparr>ticks := Suc (ticks (info (HTTP_Error e) w1))\<rparr>),
           Inr None)"
      using Timer_without_lines [of env "''Download archive''"
          "download_archive env (TMP_DIR env) (opt_month opts) (opt_force opts)" w]
      by (auto simp: fetch w0_def [symmetric])
    define w2 where "w2 = info (Timer_message parts)
             ((info (HTTP_Error e) w1)\<lparr>ticks := Suc (ticks (info (HTTP_Error e) w1))\<rparr>)"
    from assms(1) timer have "main_filename env opts w = (w2, Inr None)"
      by (auto simp: main_filename_def w2_def)
    then have result: "main env opts w = (warning Nothing_to_import w2, Inr ())"
      by (simp add: main_def)
    have log: "logged (warning Nothing_to_import w2)
        = logged w @ entries @ [(INFO, HTTP_Error e), (INFO, Timer_message parts),
            (WARNING, Nothing_to_import)]"
      by (simp add: w2_def warning_def info_def entries)
    have "database_file (warning Nothing_to_import w2) = database_file w"
      and "db_calls (warning Nothing_to_import w2) = db_calls w"
      by (simp_all add: w2_def warning_def info_def frame)
    with result log entries(2)
    show "\<exists>w'. main env opts w = (w', Inr ())
         \<and> (INFO, HTTP_Error e) \<in> set (new_log w w')
         \<and> last (logged w') = (WARNING, Nothing_to_import)
         \<and> database_file w' = database_file w
         \<and> db_calls w' = db_calls w
         \<and> (\<forall>n. (INFO, Records_processed n) \<notin> set (new_log w w'))"
      by (auto simp: new_log_def)
  next
    assume other: "\<not> is_URLError e"
    with tried r
    have fetch: "download_archive env (TMP_DIR env) (opt_month opts) (opt_force opts) w0
        = (w1, Inl e)"
      by (simp add: download_archive_unfold url_def p_def)
    obtain parts where
      timer: "Timer env ''Download archive'' 0
          (download_archive env (TMP_DIR env) (opt_month opts) (opt_force opts)) w
        = (info (Timer_message parts) (w1\<lparr>ticks := Suc (ticks w1)\<rparr>), Inl e)"
      using Timer_without_lines [of env "''Download archive''"
          "download_archive env (TMP_DIR env) (opt_month opts) (opt_force opts)" w]
      by (auto simp: fetch w0_def [symmetric])
    define w2 where "w2 = info (Timer_message parts) (w1\<lparr>ticks := Suc (ticks w1)\<rparr>)"
    from assms(1) timer have "main_filename env opts w = (w2, Inl e)"
      by (auto simp: main_filename_def w2_def)
    then have result: "main env opts w = (w2, Inl e)"
      by (simp add: main_def)
    have log: "logged w2 = logged w @ entries @ [(INFO, Timer_message parts)]"
      by (simp add: w2_def info_def entries)
    have "database_file w2 = database_file w" and "db_calls w2 = db_calls w"
      by (simp_all add: w2_def info_def frame)
    with result log entries(2)
    show "\<exists>w'. main env opts w = (w', Inl e)
         \<and> (\<forall>err. (INFO, HTTP_Error err) \<notin> set (new_log w w'))
         \<and> (WARNING, Nothing_to_import) \<notin> set (new_log w w')
         \<and> database_file w' = database_file w
         \<and> db_calls w' = db_calls w
         \<and> (\<forall>n. (INFO, Records_processed n) \<notin> set (new_log w w'))"
      by (auto simp: new_log_def)
  qed
qed

subsection \<open>The theorems on the examples\<close>

theorem read_spots_above_watermark_witness:
  "outcome (read_spots example_resolver example_archive 10) = None
   \<and> list_all2 (\<lambda>r l. read_line example_resolver 10 l = Inr (Some r))
        (items (read_spots example_resolver example_archive 10))
        (filter (is_above 10) (items example_archive))
   \<and> items (read_spots example_resolver example_archive 10)
        = [example_spot ''11'', example_spot ''12'']
   \<and> filter (is_above 10) (items example_archive) = [example_line ''11'', example_line ''12'']"
proof -
  have finished: "outcome (read_spots example_resolver example_archive 10) = None"
    by code_simp
  have yielded: "items (read_spots example_resolver example_archive 10)
        = [example_spot ''11'', example_spot ''12'']"
    by code_simp
  have lines: "filter (is_above 10) (items example_archive)
        = [example_line ''11'', example_line ''12'']"
    by code_simp
  note read_spots_above_watermark [of example_resolver 10 example_archive,
      THEN conjunct2, THEN conjunct2, THEN mp, OF finished]
  with finished yielded lines show ?thesis
    by (intro conjI)
qed

theorem download_archive_current_year_witness:
  "target_file example_env (Some 11) = ''wsprspots-2026-11.csv.gz''
   \<and> datetime_now example_env = (2026, 3)
   \<and> download_archive example_env_any_url ''/tmp'' (Some 11) False example_world
       = download_archive example_env ''/tmp'' (Some 11) False example_world
   \<and> snd (download_archive example_env ''/tmp'' (Some 11) False example_world)
       = Inr (Some ''/tmp/wsprspots-2026-11.csv.gz'')
   \<and> ''/tmp/wsprspots-2026-11.csv.gz'' = os_path_join ''/tmp'' (target_file example_env (Some 11))"
proof -
  have name: "target_file example_env (Some 11) = ''wsprspots-2026-11.csv.gz''"
    by code_simp
  have now: "datetime_now example_env = (2026, 3)"
    by code_simp
  have same: "datetime_now example_env_any_url = datetime_now example_env
        \<and> urlopen example_env_any_url (urljoin WSPR_ARCHIVE (target_file example_env (Some 11)))
            = urlopen example_env (urljoin WSPR_ARCHIVE (target_file example_env (Some 11)))"
    by code_simp
  have returned: "snd (download_archive example_env ''/tmp'' (Some 11) False example_world)
       = Inr (Some ''/tmp/wsprspots-2026-11.csv.gz'')"
    by code_simp
  note inst = download_archive_current_year
    [of example_env "Some 11" example_env_any_url "''/tmp''" False example_world]
  from inst [THEN conjunct2, THEN conjunct1, THEN mp, OF same]
    inst [THEN conjunct2, THEN conjunct2, THEN spec, THEN mp, OF returned]
    name now returned
  show ?thesis by (intro conjI)
qed


theorem main_recovers_URLError_witness:
  "(opt_filename example_opts_none = None \<or> opt_filename example_opts_none = Some [])
   \<and> fetch_raises example_env example_opts_none example_world = Some (HTTPError 404)
   \<and> is_URLError (HTTPError 404)
   \<and> (\<exists>w'. main example_env example_opts_none example_world = (w', Inr ())
     \<and> (INFO, HTTP_Error (HTTPError 404)) \<in> set (new_log example_world w')
     \<and> last (logged w') = (WARNING, Nothing_to_import)
     \<and> database_file w' = database_file example_world
     \<and> db_calls w' = db_calls example_world
     \<and> (\<forall>n. (INFO, Records_processed n) \<notin> set (new_log example_world w')))
   \<and> fetch_raises example_env_reset example_opts_none example_world = Some ConnectionResetError
   \<and> \<not> is_URLError ConnectionResetError
   \<and> (\<exists>w'. main example_env_reset example_opts_none example_world
           = (w', Inl ConnectionResetError)
     \<and> (\<forall>err. (INFO, HTTP_Error err) \<notin> set (new_log example_world w'))
     \<and> (WARNING, Nothing_to_import) \<notin> set (new_log example_world w')
     \<and> database_file w' = database_file example_world
     \<and> db_calls w' = db_calls example_world
     \<and> (\<forall>n. (INFO, Records_processed n) \<notin> set (new_log example_world w')))"
proof -
  have nofile: "opt_filename example_opts_none = None \<or> opt_filename example_opts_none = Some []"
    by code_simp
  have raises: "fetch_raises example_env example_opts_none example_world = Some (HTTPError 404)"
    by code_simp
  have caught: "is_URLError (HTTPError 404)"
    by simp
  have reset: "fetch_raises example_env_reset example_opts_none example_world
      = Some ConnectionResetError"
    by code_simp
  have other: "\<not> is_URLError ConnectionResetError"
    by simp
  from main_recovers_URLError [OF nofile raises, THEN conjunct1, THEN mp, OF caught]
    main_recovers_URLError [OF nofile reset, THEN conjunct2, THEN mp, OF other]
    nofile raises caught reset other
  show ?thesis by (intro conjI)
qed

text \<open>
  Claim C9 as stated fails: a connection reset while the body is read is not a
  \<open>URLError\<close>; it leaves the fetcher and ends the run with that exception, and
  \<open>Nothing to import\<close> is not logged.
\<close>

theorem main_propagates_connection_reset:
  "snd (main example_env_reset example_opts_none example_world) = Inl ConnectionResetError
   \<and> (WARNING, Nothing_to_import)
       \<notin> set (logged (fst (main example_env_reset example_opts_none example_world)))
   \<and> fetch_raises example_env_reset example_opts_none example_world = Some ConnectionResetError"
  by code_simp

section \<open>Schema creation\<close>

lemma run_script_SQL_TABLE_again:
  assumes "''idx_time'' \<in> set (map fst (indexes db))"
  shows "run_script SQL_TABLE db = (db, Some OperationalError)
       \<or> (\<exists>db'. run_script SQL_TABLE db = (db', Some OperationalError)
            \<and> tables db' = tables db @ [(''wspr'', wspr_columns)]
            \<and> indexes db' = indexes db \<and> wspr db' = wspr db)"
  using assms by (auto simp: SQL_TABLE_def)

text \<open>
  Claim C3 fails on the code. On a state with no database, \<open>create_db\<close> succeeds; run
  again on the result, it ends with \<open>OperationalError\<close>, because the script creates
  the index \<open>idx_time\<close> without \<open>IF NOT EXISTS\<close>. The schema and the rows are left
  as they were.
\<close>

theorem create_db_twice_raises:
  "snd (create_db example_world) = Inr ()
   \<and> snd (create_db (fst (create_db example_world))) = Inl OperationalError
   \<and> database_file (fst (create_db (fst (create_db example_world))))
       = database_file (fst (create_db example_world))"
  by code_simp

section \<open>The report of a run\<close>

text \<open>
  Claim C7 fails on the code. A run that imports the three records of the example
  archive logs the count and the elapsed time, and no rate: \<open>main\<close> builds its timer
  as \<open>Timer('Import WSPR')\<close>, whose \<open>nb_lines\<close> is 0, and never sets it.
\<close>

theorem main_logs_no_rate:
  "snd (main example_env example_opts_file example_world) = Inr ()
   \<and> logged (fst (main example_env example_opts_file example_world))
       = [(INFO, Database), (INFO, Importing ''archive.gz''),
          (INFO, Records_processed 3),
          (INFO, Timer_message [Title ''Import WSPR'', Seconds 3 0]),
          (INFO, Cache_info)]
   \<and> map spot_id
        (wspr (the (database_file (fst (main example_env example_opts_file example_world)))))
       = [Some 10, Some 11, Some 12]"
  by code_simp

section \<open>Integers in text: \<open>int\<close> and the key of the table\<close>

lemma digit_not_space:
  "is_digit c \<Longrightarrow> \<not> is_space c \<and> \<not> int_space c \<and> \<not> sql_space c"
  by (auto simp: is_digit_def is_space_def int_space_def sql_space_def Let_def)

lemma digit_not_sign: "is_digit c \<Longrightarrow> c \<noteq> CHR ''-'' \<and> c \<noteq> CHR ''+'' \<and> c \<noteq> CHR '',''"
  by (auto simp: is_digit_def)

lemma sign_not_space: "c = CHR ''-'' \<or> c = CHR ''+'' \<Longrightarrow> \<not> int_space c \<and> \<not> sql_space c"
  by (auto simp: int_space_def sql_space_def)

lemma sql_space_int_space: "sql_space c \<Longrightarrow> int_space c"
  by (auto simp: int_space_def sql_space_def Let_def)

lemma int_digits_value:
  "list_all is_digit s \<Longrightarrow> s \<noteq> [] \<or> d \<Longrightarrow> int_digits acc d s = Some (digits_value acc s)"
  by (induction s arbitrary: acc d) auto

lemma dropWhile_rev_append:
  assumes "\<forall>c \<in> set b. sp c" and "t \<noteq> []" and "\<not> sp (last t)"
  shows "dropWhile sp (rev (t @ b)) = rev t"
proof -
  from assms(2) obtain u x where t: "t = u @ [x]"
    by (cases t rule: rev_cases) auto
  with assms(3) have "\<not> sp x" by simp
  with assms(1) show ?thesis
    by (simp add: t dropWhile_append3)
qed

lemma strip_around_unique:
  assumes "\<forall>c \<in> set a. sp c" and "\<forall>c \<in> set b. sp c"
    and "t \<noteq> []" and "\<not> sp (hd t)" and "\<not> sp (last t)"
  shows "strip_around sp (a @ t @ b) = t"
proof -
  from assms(3,5) have "a @ t \<noteq> []" "\<not> sp (last (a @ t))"
    by simp_all
  from dropWhile_rev_append [OF assms(2) this]
  have "dropWhile sp (rev (a @ t @ b)) = rev (a @ t)"
    by simp
  moreover from assms(3) obtain x u where t: "t = x # u"
    by (cases t) auto
  with assms(4) have "\<not> sp x" by simp
  with assms(1) have "dropWhile sp (a @ t) = t"
    by (simp add: t dropWhile_append3)
  ultimately show ?thesis
    by (simp add: strip_around_def)
qed

lemma strip_around_id:
  "t \<noteq> [] \<Longrightarrow> \<not> sp (hd t) \<Longrightarrow> \<not> sp (last t) \<Longrightarrow> strip_around sp t = t"
  using strip_around_unique [of "[]" sp "[]" t] by simp

lemma strip_around_decomp:
  "\<exists>a b. s = a @ strip_around sp s @ b \<and> (\<forall>c \<in> set a. sp c) \<and> (\<forall>c \<in> set b. sp c)"
proof -
  define r where "r = rev (dropWhile sp (rev s))"
  have "rev s = takeWhile sp (rev s) @ dropWhile sp (rev s)"
    by simp
  then have "s = rev (dropWhile sp (rev s)) @ rev (takeWhile sp (rev s))"
    by (metis rev_append rev_rev_ident)
  then have s: "s = r @ rev (takeWhile sp (rev s))"
    by (simp add: r_def)
  have r: "r = takeWhile sp r @ dropWhile sp r"
    by simp
  have "strip_around sp s = dropWhile sp r"
    by (simp add: strip_around_def r_def)
  with s r have "s = takeWhile sp r @ strip_around sp s @ rev (takeWhile sp (rev s))"
    by (metis append.assoc)
  moreover have "\<forall>c \<in> set (takeWhile sp r). sp c"
    by (auto dest: set_takeWhileD)
  moreover have "\<forall>c \<in> set (rev (takeWhile sp (rev s))). sp c"
    by (auto dest: set_takeWhileD)
  ultimately show ?thesis by blast
qed

text \<open>
  What the engine takes as a key, \<open>int\<close> reads as the same number, unless it has too
  many digits for \<open>int\<close>.
\<close>

lemma sql_integer_py_int:
  assumes "sql_integer s = Some k"
  shows "py_int s = Inr k \<or> py_int s = Inl ValueError"
proof -
  define t where "t = strip_around sql_space s"
  from assms obtain c cs where t: "t = c # cs"
    by (cases t) (auto simp: sql_integer_def t_def)
  define neg where "neg = (c = CHR ''-'')"
  define body where "body = (if c = CHR ''-'' \<or> c = CHR ''+'' then cs else c # cs)"
  from assms t have body: "body \<noteq> []" "list_all is_digit body"
    and k: "k = (if neg then - digits_value 0 body else digits_value 0 body)"
    by (auto simp: sql_integer_def t_def [symmetric] body_def neg_def Let_def
        split: if_splits)
  from body have "is_digit (last body)"
    by (simp add: list_all_iff)
  moreover from body t have "last t = last body"
    by (auto simp: body_def split: if_splits)
  ultimately have last: "\<not> int_space (last t)"
    by (simp add: digit_not_space)
  have "c = CHR ''-'' \<or> c = CHR ''+'' \<or> is_digit c"
    using body by (auto simp: body_def split: if_splits)
  then have hd: "\<not> int_space (hd t)"
    using sign_not_space [of c] digit_not_space [of c] by (auto simp: t)
  from strip_around_decomp [of s sql_space] obtain a b where
    s: "s = a @ t @ b" and a: "\<forall>c \<in> set a. sql_space c" and b: "\<forall>c \<in> set b. sql_space c"
    unfolding t_def by blast
  from a b have "\<forall>c \<in> set a. int_space c" "\<forall>c \<in> set b. int_space c"
    by (simp_all add: sql_space_int_space)
  from strip_around_unique [OF this _ hd last] t s
  have strip: "strip_around int_space s = c # cs"
    by simp
  from int_digits_value [OF body(2), of False 0] body(1)
  have digits: "int_digits 0 False body = Some (digits_value 0 body)"
    by simp
  have sign: "is_digit c \<Longrightarrow> c \<noteq> CHR ''-'' \<and> c \<noteq> CHR ''+''"
    using digit_not_sign by blast
  show ?thesis
    using digits k
    by (auto simp: py_int_def strip body_def neg_def split: if_splits)
qed

lemma primary_key_spot_id:
  "primary_key r = Some k \<Longrightarrow> spot_id r = Some n \<Longrightarrow> k = n"
  using sql_integer_py_int
  by (fastforce simp: primary_key_def spot_id_def split: list.splits field.splits sum.splits)

text \<open>The decimal numeral of a small number, read by \<open>int\<close> and by the engine.\<close>

lemma digit_char_digit: "d < 10 \<Longrightarrow> is_digit (digit_char d) \<and> digit_val (digit_char d) = int d"
  by (simp add: is_digit_def digit_val_def digit_char_def)

lemma str_nat_digits: "str_nat n \<noteq> [] \<and> list_all is_digit (str_nat n)"
proof (induction n rule: str_nat.induct)
  case (1 n)
  show ?case
  proof (cases "n < 10")
    case True
    then show ?thesis
      by (simp add: str_nat.simps [of n] digit_char_digit)
  next
    case False
    with 1 show ?thesis
      by (simp add: str_nat.simps [of n] digit_char_digit)
  qed
qed

lemma digits_value_append:
  "digits_value acc (s @ [c]) = digits_value acc s * 10 + digit_val c"
  by (induction s arbitrary: acc) auto

lemma str_nat_value: "digits_value 0 (str_nat n) = int n"
proof (induction n rule: str_nat.induct)
  case (1 n)
  show ?case
  proof (cases "n < 10")
    case True
    then show ?thesis
      by (simp add: str_nat.simps [of n] digit_char_digit)
  next
    case False
    with 1 have "digits_value 0 (str_nat n) = int (n div 10) * 10 + int (n mod 10)"
      by (simp add: str_nat.simps [of n] digits_value_append digit_char_digit)
    then show ?thesis by (simp add: zdiv_int zmod_int)
  qed
qed

lemma length_str_nat: "length (str_nat n) \<le> Suc n"
proof (induction n rule: str_nat.induct)
  case (1 n)
  show ?case
  proof (cases "n < 10")
    case True
    then show ?thesis
      by (simp add: str_nat.simps [of n])
  next
    case False
    with 1 have "length (str_nat n) \<le> Suc (Suc (n div 10))"
      by (simp add: str_nat.simps [of n])
    with False show ?thesis by linarith
  qed
qed

lemma strip_around_str_nat: "strip_around sp (str_nat n) = str_nat n"
  if "\<And>c. is_digit c \<Longrightarrow> \<not> sp c"
proof -
  from str_nat_digits [of n] have "is_digit (hd (str_nat n))" "is_digit (last (str_nat n))"
    by (simp_all add: list_all_iff)
  with that str_nat_digits [of n] show ?thesis
    by (intro strip_around_id) auto
qed

lemma py_int_str_nat:
  assumes "n < 4300"
  shows "py_int (str_nat n) = Inr (int n)"
proof -
  from str_nat_digits [of n] obtain c cs where s: "str_nat n = c # cs"
    and digits: "list_all is_digit (c # cs)"
    by (cases "str_nat n") auto
  then have "is_digit c" by simp
  from digit_not_sign [OF this] have sign: "c \<noteq> CHR ''-''" "c \<noteq> CHR ''+''" by simp_all
  have strip: "strip_around int_space (str_nat n) = c # cs"
    using strip_around_str_nat [of int_space n] digit_not_space s by auto
  from int_digits_value [OF digits, of False 0] str_nat_value [of n] s
  have parsed: "int_digits 0 False (c # cs) = Some (int n)" by simp
  from digits have "filter is_digit (c # cs) = c # cs"
    by (simp add: list_all_iff)
  with length_str_nat [of n] assms s
  have "\<not> int_max_str_digits < length (filter is_digit (c # cs))"
    by (simp add: int_max_str_digits_def)
  with strip parsed sign show ?thesis
    by (simp add: py_int_def)
qed

lemma sql_integer_str_nat:
  assumes "n < 4300"
  shows "sql_integer (str_nat n) = Some (int n)"
proof -
  from str_nat_digits [of n] obtain c cs where s: "str_nat n = c # cs"
    and digits: "list_all is_digit (c # cs)"
    by (cases "str_nat n") auto
  then have "is_digit c" by simp
  from digit_not_sign [OF this] have sign: "c \<noteq> CHR ''-''" "c \<noteq> CHR ''+''" by simp_all
  have strip: "strip_around sql_space (str_nat n) = c # cs"
    using strip_around_str_nat [of sql_space n] digit_not_space s by auto
  from assms have "int n < 2 ^ 63" by simp
  with strip sign digits str_nat_value [of n] s show ?thesis
    by (simp add: sql_integer_def)
qed

section \<open>The batch loop\<close>

lemma batches_Nil: "0 < n \<Longrightarrow> batches n [] = []"
  by (simp add: batches_def)

lemma batches_short:
  assumes "xs \<noteq> []" "length xs < n"
  shows "batches n xs = [xs]"
proof -
  from assms obtain m where "length xs = Suc m"
    by (cases xs) auto
  with assms have "(length xs + n - 1) div n = 1"
    by simp
  with assms show ?thesis by (simp add: batches_def)
qed

lemma batches_step:
  assumes "0 < n" "n \<le> length xs"
  shows "batches n xs = take n xs # batches n (drop n xs)"
proof -
  from assms have "length xs + n - 1 = (length xs - n + n - 1) + n"
    by simp
  then have "(length xs + n - 1) div n = (length xs - n + n - 1) div n + 1"
    using assms by (simp only: div_add_self2)
  then have count: "(length xs + n - 1) div n = Suc ((length (drop n xs) + n - 1) div n)"
    by simp
  have "map (\<lambda>i. take n (drop (i * n) xs)) [0..<Suc k]
      = take n xs # map (\<lambda>i. take n (drop (i * n) (drop n xs))) [0..<k]" for k
    by (simp add: upt_conv_Cons map_Suc_upt [symmetric] add.commute del: upt_Suc)
  with count show ?thesis
    by (simp add: batches_def)
qed

lemma fill_bulk_Full:
  "fill_bulk n w b = Full b' w' \<Longrightarrow>
     b' = b @ take n (items w) \<and> items w' = drop n (items w) \<and> n \<le> length (items w)
     \<and> outcome w' = outcome w"
  by (induction n w b rule: fill_bulk.induct) auto

lemma fill_bulk_Stopped:
  "fill_bulk n w b = Stopped b' \<Longrightarrow>
     b' = b @ items w \<and> length (items w) < n \<and> outcome w = None"
  by (induction n w b rule: fill_bulk.induct) auto

lemma fill_bulk_Raised:
  "fill_bulk n w b = Raised e \<Longrightarrow> length (items w) < n \<and> outcome w = Some e"
  by (induction n w b rule: fill_bulk.induct) auto

lemma insert_row_Inr:
  "insert_row r conn = Inr conn' \<Longrightarrow> conn' = conn\<lparr>pending := pending conn @ [r]\<rparr>"
  by (auto simp: insert_row_def split: if_splits option.splits)

lemma insert_rows_result:
  "insert_rows bulk conn = (conn', res) \<Longrightarrow>
     \<exists>rows. conn' = conn\<lparr>pending := pending conn @ rows\<rparr> \<and> set rows \<subseteq> set bulk
       \<and> (res = None \<longrightarrow> rows = bulk)"
proof (induction bulk arbitrary: conn)
  case Nil
  then show ?case by simp
next
  case (Cons r rs)
  show ?case
  proof (cases "insert_row r conn")
    case (Inl e)
    with Cons.prems show ?thesis by (intro exI [of _ "[]"]) auto
  next
    case (Inr conn1)
    with Cons.prems have "insert_rows rs conn1 = (conn', res)" by simp
    from Cons.IH [OF this] obtain rows where rows:
      "conn' = conn1\<lparr>pending := pending conn1 @ rows\<rparr>" "set rows \<subseteq> set rs"
      "res = None \<longrightarrow> rows = rs"
      by blast
    from insert_row_Inr [OF Inr] rows(1)
    have "conn' = conn\<lparr>pending := pending conn @ r # rows\<rparr>" by simp
    with rows(2,3) show ?thesis
      by (intro exI [of _ "r # rows"]) auto
  qed
qed

lemma executemany_result:
  assumes "executemany bulk conn = (conn', r)"
  shows "\<exists>rows. conn' = conn\<lparr>pending := pending conn @ rows,
                    calls := calls conn @ [ExecuteMany bulk (case r of Inl e \<Rightarrow> Some e | Inr _ \<Rightarrow> None)]\<rparr>
     \<and> set rows \<subseteq> set bulk \<and> (r = Inr () \<longrightarrow> rows = bulk)
     \<and> (rows \<noteq> [] \<longrightarrow> map_of (tables (store conn)) ''wspr'' \<noteq> None)"
proof -
  obtain conn1 res where ins: "insert_rows bulk conn = (conn1, res)"
    by (cases "insert_rows bulk conn") auto
  from insert_rows_result [OF ins] obtain rows where rows:
    "conn1 = conn\<lparr>pending := pending conn @ rows\<rparr>" "set rows \<subseteq> set bulk"
    "res = None \<longrightarrow> rows = bulk"
    by blast
  show ?thesis
  proof (cases "\<exists>cols. map_of (tables (store conn)) ''wspr'' = Some cols \<and> length cols = INSERT")
    case True
    with assms ins rows show ?thesis
      by (intro exI [of _ rows]) (auto simp: executemany_def split: option.splits)
  next
    case False
    with assms show ?thesis
      by (intro exI [of _ "[]"]) (auto simp: executemany_def split: option.splits)
  qed
qed

lemma BULK_LENGTH_pos: "0 < BULK_LENGTH"
  by (simp add: BULK_LENGTH_def)

lemma import_loop_result:
  "import_loop wspot conn counter = (conn', res) \<Longrightarrow>
     \<exists>bs tail rows.
        conn' = conn\<lparr>pending := pending conn @ concat bs @ rows,
                      calls := calls conn @ map (\<lambda>b. ExecuteMany b None) bs @ tail\<rparr>
      \<and> set (concat bs @ rows) \<subseteq> set (items wspot)
      \<and> (\<forall>b \<in> set bs. b \<noteq> [])
      \<and> (concat bs @ rows \<noteq> [] \<longrightarrow> map_of (tables (store conn)) ''wspr'' \<noteq> None)
      \<and> (case res of
           Inr c \<Rightarrow> tail = [] \<and> rows = [] \<and> bs = batches BULK_LENGTH (items wspot)
                    \<and> c = counter + length (items wspot) \<and> outcome wspot = None
         | Inl e \<Rightarrow> (tail = [] \<and> rows = [] \<and> outcome wspot = Some e)
                    \<or> (\<exists>b. tail = [ExecuteMany b (Some e)] \<and> set rows \<subseteq> set b))"
proof (induction wspot conn counter arbitrary: conn' res rule: import_loop.induct)
  case (1 wspot conn counter)
  note loop = import_loop.simps [of wspot conn counter]
  show ?case
  proof (cases "fill_bulk BULK_LENGTH wspot []")
    case (Raised e)
    with "1.prems" loop have "conn' = conn" "res = Inl e" by auto
    moreover from fill_bulk_Raised [OF Raised] have "outcome wspot = Some e" by simp
    ultimately show ?thesis
      by (intro exI [of _ "[]"]) simp
  next
    case (Stopped bulk)
    from fill_bulk_Stopped [OF Stopped]
    have bulk: "bulk = items wspot" "length (items wspot) < BULK_LENGTH" "outcome wspot = None"
      by simp_all
    show ?thesis
    proof (cases "bulk = []")
      case True
      with "1.prems" loop Stopped have "conn' = conn" "res = Inr counter" by auto
      with True bulk show ?thesis
        by (intro exI [of _ "[]"]) (simp add: batches_Nil BULK_LENGTH_pos)
    next
      case False
      obtain conn1 r1 where ex: "executemany bulk conn = (conn1, r1)"
        by (cases "executemany bulk conn") auto
      from executemany_result [OF ex] obtain rows where rows:
        "conn1 = conn\<lparr>pending := pending conn @ rows,
            calls := calls conn @ [ExecuteMany bulk (case r1 of Inl e \<Rightarrow> Some e | Inr _ \<Rightarrow> None)]\<rparr>"
        "set rows \<subseteq> set bulk" "r1 = Inr () \<longrightarrow> rows = bulk"
        "rows \<noteq> [] \<longrightarrow> map_of (tables (store conn)) ''wspr'' \<noteq> None"
        by blast
      show ?thesis
      proof (cases r1)
        case (Inl e)
        with "1.prems" loop Stopped False ex have "conn' = conn1" "res = Inl e" by auto
        with rows Inl bulk show ?thesis
          by (intro exI [of _ "[]"] exI [of _ "[ExecuteMany bulk (Some e)]"] exI [of _ rows])
            auto
      next
        case (Inr u)
        with "1.prems" loop Stopped False ex
        have "conn' = conn1" "res = Inr (counter + length bulk)" by auto
        moreover from Inr rows have "rows = bulk" by simp
        moreover from False bulk have "batches BULK_LENGTH (items wspot) = [bulk]"
          by (simp add: batches_short)
        ultimately show ?thesis using rows Inr bulk False
          by (intro exI [of _ "[bulk]"] exI [of _ "[]"] exI [of _ "[]"]) simp
      qed
    qed
  next
    case (Full bulk wspot')
    from fill_bulk_Full [OF Full]
    have bulk: "bulk = take BULK_LENGTH (items wspot)"
      "items wspot' = drop BULK_LENGTH (items wspot)"
      "BULK_LENGTH \<le> length (items wspot)" "outcome wspot' = outcome wspot"
      by simp_all
    then have nonempty: "bulk \<noteq> []"
      using BULK_LENGTH_pos by auto
    from bulk have split: "items wspot = bulk @ items wspot'"
      by simp
    from bulk BULK_LENGTH_pos
    have step: "batches BULK_LENGTH (items wspot) = bulk # batches BULK_LENGTH (items wspot')"
      by (simp add: batches_step)
    obtain conn1 r1 where ex: "executemany bulk conn = (conn1, r1)"
      by (cases "executemany bulk conn") auto
    from executemany_result [OF ex] obtain rows where rows:
      "conn1 = conn\<lparr>pending := pending conn @ rows,
          calls := calls conn @ [ExecuteMany bulk (case r1 of Inl e \<Rightarrow> Some e | Inr _ \<Rightarrow> None)]\<rparr>"
      "set rows \<subseteq> set bulk" "r1 = Inr () \<longrightarrow> rows = bulk"
      "rows \<noteq> [] \<longrightarrow> map_of (tables (store conn)) ''wspr'' \<noteq> None"
      by blast
    show ?thesis
    proof (cases r1)
      case (Inl e)
      with "1.prems" loop Full ex have "conn' = conn1" "res = Inl e" by auto
      with rows Inl split show ?thesis
        by (intro exI [of _ "[]"] exI [of _ "[ExecuteMany bulk (Some e)]"] exI [of _ rows])
          auto
    next
      case (Inr u)
      with "1.prems" loop Full ex
      have rest: "import_loop wspot' conn1 (counter + length bulk) = (conn', res)" by auto
      from Inr rows have conn1: "conn1 = conn\<lparr>pending := pending conn @ bulk,
          calls := calls conn @ [ExecuteMany bulk None]\<rparr>"
        by simp
      from "1.IH" [OF Full ex [symmetric] Inr rest]
      obtain bs tail rows' where ih:
        "conn' = conn1\<lparr>pending := pending conn1 @ concat bs @ rows',
                      calls := calls conn1 @ map (\<lambda>b. ExecuteMany b None) bs @ tail\<rparr>"
        "set (concat bs @ rows') \<subseteq> set (items wspot')"
        "\<forall>b \<in> set bs. b \<noteq> []"
        "concat bs @ rows' \<noteq> [] \<longrightarrow> map_of (tables (store conn1)) ''wspr'' \<noteq> None"
        "case res of
           Inr c \<Rightarrow> tail = [] \<and> rows' = [] \<and> bs = batches BULK_LENGTH (items wspot')
                    \<and> c = counter + length bulk + length (items wspot') \<and> outcome wspot' = None
         | Inl e \<Rightarrow> (tail = [] \<and> rows' = [] \<and> outcome wspot' = Some e)
                    \<or> (\<exists>b. tail = [ExecuteMany b (Some e)] \<and> set rows' \<subseteq> set b)"
        by blast
      from ih(1) conn1
      have "conn' = conn\<lparr>pending := pending conn @ concat (bulk # bs) @ rows',
                      calls := calls conn @ map (\<lambda>b. ExecuteMany b None) (bulk # bs) @ tail\<rparr>"
        by simp
      moreover from ih(2) split
      have "set (concat (bulk # bs) @ rows') \<subseteq> set (items wspot)"
        by auto
      moreover from ih(3) nonempty have "\<forall>b \<in> set (bulk # bs). b \<noteq> []"
        by simp
      moreover from rows(4) Inr nonempty rows(3)
      have "concat (bulk # bs) @ rows' \<noteq> [] \<longrightarrow> map_of (tables (store conn)) ''wspr'' \<noteq> None"
        by simp
      moreover from ih(5) step split bulk(4)
      have "case res of
           Inr c \<Rightarrow> tail = [] \<and> rows' = [] \<and> bulk # bs = batches BULK_LENGTH (items wspot)
                    \<and> c = counter + length (items wspot) \<and> outcome wspot = None
         | Inl e \<Rightarrow> (tail = [] \<and> rows' = [] \<and> outcome wspot = Some e)
                    \<or> (\<exists>b. tail = [ExecuteMany b (Some e)] \<and> set rows' \<subseteq> set b)"
        by (cases res) auto
      ultimately show ?thesis
        by (intro exI [of _ "bulk # bs"] exI [of _ tail] exI [of _ rows']) (intro conjI)
    qed
  qed
qed

lemma executed_oks [simp]: "executed (map (\<lambda>b. ExecuteMany b None) bs @ cs) = bs @ executed cs"
  by (induction bs) auto

lemma written_oks [simp]: "written (map (\<lambda>b. ExecuteMany b None) bs @ cs) = bs @ written cs"
  by (induction bs) auto

lemma commits_oks [simp]: "commits (map (\<lambda>b. ExecuteMany b None) bs @ cs) = commits cs"
  by (induction bs) (auto simp: commits_def)

lemma wspr_import_result:
  assumes "wspr_import env filename start_id w = (w', res)"
  shows "\<exists>bs tail rows.
        new_calls w w' = map (\<lambda>b. ExecuteMany b None) bs @ tail @ [Commit, Close]
      \<and> rows_of w' = rows_of w @ concat bs @ rows
      \<and> database_file w' \<noteq> None
      \<and> files w' = files w \<and> ticks w' = ticks w
      \<and> tables_of w' = tables_of w
      \<and> set (concat bs @ rows) \<subseteq> set (items (spots env w filename start_id))
      \<and> (\<forall>b \<in> set bs. b \<noteq> [])
      \<and> (concat bs @ rows \<noteq> [] \<longrightarrow> map_of (tables_of w) ''wspr'' \<noteq> None)
      \<and> (case res of
           Inr u \<Rightarrow> tail = [] \<and> rows = []
                    \<and> bs = batches BULK_LENGTH (items (spots env w filename start_id))
                    \<and> outcome (spots env w filename start_id) = None
                    \<and> new_log w w' = [(INFO, Records_processed
                                           (length (items (spots env w filename start_id))))]
         | Inl e \<Rightarrow> new_log w w' = []
                    \<and> ((tail = [] \<and> rows = [] \<and> outcome (spots env w filename start_id) = Some e)
                       \<or> (\<exists>b. tail = [ExecuteMany b (Some e)] \<and> set rows \<subseteq> set b)))"
proof -
  define wspot where "wspot = spots env w filename start_id"
  obtain conn r where loop: "import_loop wspot (connect (database_file w)) 0 = (conn, r)"
    by (cases "import_loop wspot (connect (database_file w)) 0") auto
  from import_loop_result [OF loop] obtain bs tail rows where
    conn: "conn = (connect (database_file w))
             \<lparr>pending := pending (connect (database_file w)) @ concat bs @ rows,
              calls := calls (connect (database_file w)) @ map (\<lambda>b. ExecuteMany b None) bs @ tail\<rparr>"
    and sub: "set (concat bs @ rows) \<subseteq> set (items wspot)"
    and ne: "\<forall>b \<in> set bs. b \<noteq> []"
    and tab: "concat bs @ rows \<noteq> [] \<longrightarrow>
        map_of (tables (store (connect (database_file w)))) ''wspr'' \<noteq> None"
    and res: "case r of
           Inr c \<Rightarrow> tail = [] \<and> rows = [] \<and> bs = batches BULK_LENGTH (items wspot)
                    \<and> c = 0 + length (items wspot) \<and> outcome wspot = None
         | Inl e \<Rightarrow> (tail = [] \<and> rows = [] \<and> outcome wspot = Some e)
                    \<or> (\<exists>b. tail = [ExecuteMany b (Some e)] \<and> set rows \<subseteq> set b)"
    by blast
  define w1 where "w1 = w\<lparr>database_file := Some (store (DBConnect_exit conn)),
      db_calls := db_calls w @ calls (DBConnect_exit conn)\<rparr>"
  from loop have scope: "DBConnect (\<lambda>conn. import_loop wspot conn 0) w = (w1, r)"
    by (simp add: DBConnect_def w1_def Let_def)
  have calls: "calls (DBConnect_exit conn) = map (\<lambda>b. ExecuteMany b None) bs @ tail @ [Commit, Close]"
    by (simp add: conn DBConnect_exit_def close_def commit_def write_pending_def connect_def)
  have rows: "wspr (store (DBConnect_exit conn)) = rows_of w @ concat bs @ rows"
    by (simp add: conn DBConnect_exit_def close_def commit_def write_pending_def connect_def
        rows_of_def empty_database_def split: option.splits)
  have tabs: "tables (store (DBConnect_exit conn)) = tables_of w"
    by (simp add: conn DBConnect_exit_def close_def commit_def write_pending_def connect_def
        empty_database_def tables_of_def split: option.splits)
  from tab have tab': "concat bs @ rows \<noteq> [] \<longrightarrow> map_of (tables_of w) ''wspr'' \<noteq> None"
    by (simp add: connect_def tables_of_def empty_database_def split: option.splits)
  from assms scope have final: "w' = (case r of Inl e \<Rightarrow> w1
      | Inr counter \<Rightarrow> info (Records_processed counter) w1)"
    and result: "res = (case r of Inl e \<Rightarrow> Inl e | Inr counter \<Rightarrow> Inr ())"
    by (auto simp: wspr_import_def wspot_def spots_def opened_def Let_def split: sum.splits)
  show ?thesis
  proof (cases r)
    case (Inl e)
    with final result have "w' = w1" "res = Inl e" by simp_all
    with Inl res calls rows tabs sub ne tab' show ?thesis
      unfolding wspot_def [symmetric]
      by (intro exI [of _ bs] exI [of _ tail] exI [of _ rows])
        (auto simp: w1_def new_calls_def new_log_def rows_of_def tables_of_def)
  next
    case (Inr counter)
    with final result have "w' = info (Records_processed counter) w1" "res = Inr ()"
      by simp_all
    with Inr res calls rows tabs sub ne tab' show ?thesis
      unfolding wspot_def [symmetric]
      by (intro exI [of _ bs] exI [of _ tail] exI [of _ rows])
        (auto simp: w1_def new_calls_def new_log_def rows_of_def tables_of_def info_def)
  qed
qed

lemma length_batches: "length (batches n xs) = (length xs + n - 1) div n"
  by (simp add: batches_def)

lemma ceiling_div:
  assumes "0 < n"
  shows "int ((m + n - 1) div n) = \<lceil>real m / real n\<rceil>"
proof -
  define k where "k = (m + n - 1) div n"
  have "k * n \<le> m + n - 1"
    by (simp add: k_def)
  with assms have lower: "k * n < m + n"
    by linarith
  have "m + n - 1 < n + k * n"
    using assms unfolding k_def by (rule dividend_less_div_times)
  with assms have upper: "m \<le> k * n"
    by linarith
  from lower have "real (k * n) < real (m + n)"
    by (simp only: of_nat_less_iff)
  then have "(real k - 1) * real n < real m"
    by (simp add: algebra_simps)
  with assms have 1: "real_of_int (int k) - 1 < real m / real n"
    by (simp add: pos_less_divide_eq)
  from upper have "real m \<le> real (k * n)"
    by (simp only: of_nat_le_iff)
  with assms have 2: "real m / real n \<le> real_of_int (int k)"
    by (simp add: pos_divide_le_eq)
  from 1 2 have "\<lceil>real m / real n\<rceil> = int k"
    by (rule ceiling_unique)
  then show ?thesis by (simp add: k_def)
qed

lemma map_length_batches:
  assumes "0 < n"
  shows "map length (batches n xs)
    = replicate (length xs div n) n @ (if length xs mod n = 0 then [] else [length xs mod n])"
proof (induction "length xs" arbitrary: xs rule: less_induct)
  case less
  show ?case
  proof (cases "n \<le> length xs")
    case True
    with assms have "length (drop n xs) < length xs" by simp
    from less [OF this] assms True show ?thesis
      by (simp add: batches_step le_div_geq le_mod_geq)
  next
    case False
    show ?thesis
    proof (cases "xs = []")
      case True
      with assms show ?thesis by (simp add: batches_Nil)
    next
      case nonempty: False
      with False show ?thesis by (simp add: batches_short)
    qed
  qed
qed

lemma concat_batches:
  assumes "0 < n"
  shows "concat (batches n xs) = xs"
proof (induction "length xs" arbitrary: xs rule: less_induct)
  case less
  show ?case
  proof (cases "n \<le> length xs")
    case True
    with assms have "length (drop n xs) < length xs" by simp
    from less [OF this] assms True show ?thesis
      by (simp add: batches_step)
  next
    case False
    show ?thesis
    proof (cases "xs = []")
      case True
      with assms show ?thesis by (simp add: batches_Nil)
    next
      case nonempty: False
      with False show ?thesis by (simp add: batches_short)
    qed
  qed
qed

lemma wspr_import_run:
  assumes "import_loop (spots env w f sid) (connect (database_file w)) 0 = (conn, r)"
  shows "new_calls w (fst (wspr_import env f sid w)) = calls (DBConnect_exit conn)"
    and "rows_of (fst (wspr_import env f sid w)) = wspr (store (DBConnect_exit conn))"
    and "snd (wspr_import env f sid w) = (case r of Inl e \<Rightarrow> Inl e | Inr c \<Rightarrow> Inr ())"
  using assms
  by (auto simp: wspr_import_def spots_def opened_def DBConnect_def Let_def new_calls_def
      rows_of_def info_def split: sum.splits)

text \<open>What the loop inserts has 19 values and a text that the engine takes as a key.\<close>

lemma insert_row_valid:
  "insert_row r conn = Inr conn' \<Longrightarrow> length r = INSERT \<and> primary_key r \<noteq> None"
  by (auto simp: insert_row_def split: if_splits option.splits)

lemma insert_rows_valid:
  assumes "insert_rows bulk conn = (conn', res)"
    and "\<forall>r \<in> set (pending conn). length r = INSERT \<and> primary_key r \<noteq> None"
  shows "\<forall>r \<in> set (pending conn'). length r = INSERT \<and> primary_key r \<noteq> None"
  using assms
proof (induction bulk arbitrary: conn)
  case Nil
  then show ?case by simp
next
  case (Cons r rs)
  show ?case
  proof (cases "insert_row r conn")
    case (Inl e)
    with Cons.prems show ?thesis by simp
  next
    case (Inr conn1)
    with Cons.prems(1) have rest: "insert_rows rs conn1 = (conn', res)" by simp
    from insert_row_Inr [OF Inr] insert_row_valid [OF Inr] Cons.prems(2)
    have "\<forall>r \<in> set (pending conn1). length r = INSERT \<and> primary_key r \<noteq> None"
      by simp
    from Cons.IH [OF rest this] show ?thesis .
  qed
qed

lemma executemany_valid:
  assumes "executemany bulk conn = (conn', res)"
    and "\<forall>r \<in> set (pending conn). length r = INSERT \<and> primary_key r \<noteq> None"
  shows "\<forall>r \<in> set (pending conn'). length r = INSERT \<and> primary_key r \<noteq> None"
proof -
  obtain conn1 r1 where ins: "insert_rows bulk conn = (conn1, r1)"
    by (cases "insert_rows bulk conn") auto
  from insert_rows_valid [OF ins assms(2)] assms ins show ?thesis
    by (auto simp: executemany_def split: option.splits if_splits)
qed

lemma import_loop_valid:
  "import_loop wspot conn counter = (conn', res) \<Longrightarrow>
     \<forall>r \<in> set (pending conn). length r = INSERT \<and> primary_key r \<noteq> None \<Longrightarrow>
     \<forall>r \<in> set (pending conn'). length r = INSERT \<and> primary_key r \<noteq> None"
proof (induction wspot conn counter arbitrary: conn' res rule: import_loop.induct)
  case (1 wspot conn counter)
  note loop = import_loop.simps [of wspot conn counter]
  show ?case
  proof (cases "fill_bulk BULK_LENGTH wspot []")
    case (Raised e)
    with "1.prems" loop show ?thesis by auto
  next
    case (Stopped bulk)
    obtain conn1 r1 where ex: "executemany bulk conn = (conn1, r1)"
      by (cases "executemany bulk conn") auto
    from executemany_valid [OF ex "1.prems"(2)] "1.prems" loop Stopped ex show ?thesis
      by (cases "bulk = []"; cases r1) auto
  next
    case (Full bulk wspot')
    obtain conn1 r1 where ex: "executemany bulk conn = (conn1, r1)"
      by (cases "executemany bulk conn") auto
    note valid1 = executemany_valid [OF ex "1.prems"(2)]
    show ?thesis
    proof (cases r1)
      case (Inl e)
      with "1.prems"(1) loop Full ex valid1 show ?thesis by auto
    next
      case (Inr u)
      with "1.prems"(1) loop Full ex
      have rest: "import_loop wspot' conn1 (counter + length bulk) = (conn', res)" by auto
      from "1.IH" [OF Full ex [symmetric] Inr rest valid1] show ?thesis .
    qed
  qed
qed

lemma wspr_import_new_rows:
  "\<exists>rows. rows_of (fst (wspr_import env filename start_id w)) = rows_of w @ rows
     \<and> set rows \<subseteq> set (items (spots env w filename start_id))
     \<and> (\<forall>r \<in> set rows. length r = INSERT \<and> primary_key r \<noteq> None)"
proof -
  obtain conn r where
    loop: "import_loop (spots env w filename start_id) (connect (database_file w)) 0 = (conn, r)"
    by (cases "import_loop (spots env w filename start_id) (connect (database_file w)) 0") auto
  from import_loop_result [OF loop] obtain bs tail rows where
    conn: "conn = (connect (database_file w))
             \<lparr>pending := pending (connect (database_file w)) @ concat bs @ rows,
              calls := calls (connect (database_file w)) @ map (\<lambda>b. ExecuteMany b None) bs @ tail\<rparr>"
    and sub: "set (concat bs @ rows) \<subseteq> set (items (spots env w filename start_id))"
    by blast
  have "\<forall>r \<in> set (pending (connect (database_file w))).
      length r = INSERT \<and> primary_key r \<noteq> None"
    by (simp add: connect_def)
  from import_loop_valid [OF loop this]
  have valid: "\<forall>r \<in> set (concat bs @ rows). length r = INSERT \<and> primary_key r \<noteq> None"
    by (simp add: conn connect_def)
  have "wspr (store (DBConnect_exit conn)) = rows_of w @ concat bs @ rows"
    by (simp add: conn DBConnect_exit_def close_def commit_def write_pending_def connect_def
        rows_of_def empty_database_def split: option.splits)
  with wspr_import_run(2) [OF loop]
  have "rows_of (fst (wspr_import env filename start_id w)) = rows_of w @ concat bs @ rows"
    by (simp only:)
  with sub valid show ?thesis
    by (intro exI [of _ "concat bs @ rows"]) simp
qed

subsection \<open>A run on an archive of 1001 records\<close>

text \<open>
  The decimal numeral of \<open>n\<close> reads back as \<open>n\<close>, so the line made for the id \<open>n\<close> is
  read as the record with that id; from this, the runs of \<open>wspr_import\<close> on the two
  long archives are computed batch by batch.
\<close>

lemma str_split_append:
  "sep \<notin> set s \<Longrightarrow> str_split sep (s @ sep # rest) = s # str_split sep rest"
  by (induction s) auto

lemma line_fields_big_line:
  "line_fields (big_line n)
     = [str_nat n, ''1700000000'', ''K1ABC'', ''FN20'', ''-12'', ''14.0971'', ''W6BSD'', ''CM87'',
        ''37'', ''0'', ''4100'', ''280'', ''14'', ''2.6'', ''1'']"
proof -
  have "rstrip (big_line n)
      = str_nat n @ '',1700000000,K1ABC,FN20,-12,14.0971,W6BSD,CM87,37,0,4100,280,14,2.6,1''"
    by (simp add: big_line_def example_line_def rstrip_def is_space_def)
  moreover have "CHR '','' \<notin> set (str_nat n)"
    using str_nat_digits [of n] digit_not_sign by (auto simp: list_all_iff)
  ultimately show ?thesis
    by (simp add: line_fields_def str_split_append)
qed

lemma read_line_big_line:
  assumes "sid < int n" and "n < 4300"
  shows "read_line example_resolver sid (big_line n) = Inr (Some (big_spot n))"
  using assms
  by (simp add: read_line_cases line_fields_big_line py_int_str_nat getitem_def
      example_resolver_def big_spot_def example_spot_def)

lemma spot_id_big_spot: "n < 4300 \<Longrightarrow> spot_id (big_spot n) = Some (int n)"
  by (simp add: spot_id_def big_spot_def example_spot_def py_int_str_nat)

lemma primary_key_big_spot: "n < 4300 \<Longrightarrow> primary_key (big_spot n) = Some (int n)"
  by (simp add: primary_key_def big_spot_def example_spot_def sql_integer_str_nat)

lemma length_big_spot: "length (big_spot n) = INSERT"
  by (simp add: big_spot_def example_spot_def INSERT_def)

lemma spot_ids_big: "\<forall>n \<in> set ns. n < 4300 \<Longrightarrow> spot_ids (map big_spot ns) = map int ns"
  by (induction ns) (simp_all add: spot_ids_def List.map_filter_simps primary_key_big_spot)

lemma items_prepend: "items (prepend xs g) = xs @ items g"
  by (induction xs) auto

lemma outcome_prepend: "outcome (prepend xs g) = outcome g"
  by (induction xs) auto

lemma read_spots_prepend:
  "\<forall>n \<in> set ns. sid < int n \<and> n < 4300 \<Longrightarrow>
     read_spots example_resolver (prepend (map big_line ns) g) sid
       = prepend (map big_spot ns) (read_spots example_resolver g sid)"
  by (induction ns) (simp_all add: read_line_big_line)

lemma spot_ids_append: "spot_ids (xs @ ys) = spot_ids xs @ spot_ids ys"
  by (simp add: spot_ids_def List.map_filter_def)

lemma insert_rows_big:
  assumes "distinct ns"
    and "int ` set ns \<inter> set (spot_ids (wspr (store conn) @ pending conn)) = {}"
    and "\<forall>n \<in> set ns. n < 4300"
  shows "insert_rows (map big_spot ns) conn
     = (conn\<lparr>pending := pending conn @ map big_spot ns\<rparr>, None)"
  using assms
proof (induction ns arbitrary: conn)
  case Nil
  show ?case by simp
next
  case (Cons n ns)
  from Cons.prems have fresh: "int n \<notin> set (spot_ids (wspr (store conn) @ pending conn))"
    by auto
  define conn1 where "conn1 = conn\<lparr>pending := pending conn @ [big_spot n]\<rparr>"
  from Cons.prems have small: "n < 4300" "\<forall>n \<in> set ns. n < 4300"
    by simp_all
  from fresh small have row: "insert_row (big_spot n) conn = Inr conn1"
    by (simp add: insert_row_def length_big_spot primary_key_big_spot conn1_def)
  have one: "spot_ids [big_spot n] = [int n]"
    using spot_ids_big [of "[n]"] small by simp
  have ids: "spot_ids (wspr (store conn1) @ pending conn1)
      = spot_ids (wspr (store conn) @ pending conn) @ [int n]"
    by (simp add: conn1_def spot_ids_append one)
  from Cons.prems have "distinct ns"
    and "int ` set ns \<inter> set (spot_ids (wspr (store conn1) @ pending conn1)) = {}"
    by (auto simp: ids)
  from Cons.IH [OF this small(2)] row show ?case
    by (simp add: conn1_def)
qed

lemma executemany_big:
  assumes "map_of (tables (store conn)) ''wspr'' = Some cols" and "length cols = INSERT"
    and "distinct ns"
    and "int ` set ns \<inter> set (spot_ids (wspr (store conn) @ pending conn)) = {}"
    and "\<forall>n \<in> set ns. n < 4300"
  shows "executemany (map big_spot ns) conn
     = (conn\<lparr>pending := pending conn @ map big_spot ns,
              calls := calls conn @ [ExecuteMany (map big_spot ns) None]\<rparr>, Inr ())"
  using assms(1,2) insert_rows_big [OF assms(3,4,5)]
  by (simp add: executemany_def)

lemma fill_bulk_prepend: "fill_bulk (length xs) (prepend xs g) b = Full (b @ xs) g"
  by (induction xs arbitrary: b) auto

lemma fill_bulk_Stop: "0 < n \<Longrightarrow> fill_bulk n StopIteration b = Stopped b"
  by (cases n) auto


lemma fill_bulk_one: "1 < n \<Longrightarrow> fill_bulk n (Yield x StopIteration) b = Stopped (b @ [x])"
  by (cases n) (auto simp: fill_bulk_Stop)



lemma import_loop_two_batches:
  assumes "map_of (tables (store conn)) ''wspr'' = Some cols" and "length cols = INSERT"
    and "wspr (store conn) = []" and "pending conn = []"
    and "length ns = BULK_LENGTH" and "distinct ns" and "m \<notin> set ns"
    and "\<forall>n \<in> set ns. n < 4300" and "m < 4300"
  shows "import_loop (prepend (map big_spot ns) (Yield (big_spot m) StopIteration)) conn 0
     = (conn\<lparr>pending := map big_spot ns @ [big_spot m],
              calls := calls conn @ [ExecuteMany (map big_spot ns) None,
                                     ExecuteMany [big_spot m] None]\<rparr>,
        Inr (Suc BULK_LENGTH))"
proof -
  define rest where "rest = Yield (big_spot m) (StopIteration :: int spot generator)"
  define conn1 where "conn1 = conn\<lparr>pending := map big_spot ns,
              calls := calls conn @ [ExecuteMany (map big_spot ns) None]\<rparr>"
  from assms(5) fill_bulk_prepend [of "map big_spot ns" rest "[]"]
  have fill: "fill_bulk BULK_LENGTH (prepend (map big_spot ns) rest) []
      = Full (map big_spot ns) rest"
    by simp
  from assms(3,4) have "int ` set ns \<inter> set (spot_ids (wspr (store conn) @ pending conn)) = {}"
    by (simp add: spot_ids_def List.map_filter_simps)
  from executemany_big [OF assms(1,2,6) this assms(8)] assms(4)
  have ex: "executemany (map big_spot ns) conn = (conn1, Inr ())"
    by (simp add: conn1_def)
  have fill1: "fill_bulk BULK_LENGTH rest [] = Stopped [big_spot m]"
    unfolding rest_def by (simp add: fill_bulk_one BULK_LENGTH_def)
  from assms(3,7,8)
  have "int ` set [m] \<inter> set (spot_ids (wspr (store conn1) @ pending conn1)) = {}"
    by (auto simp: conn1_def spot_ids_big)
  from executemany_big [of conn1 cols "[m]", OF _ _ _ this] assms(1,2,9)
  have ex1: "executemany [big_spot m] conn1
     = (conn1\<lparr>pending := pending conn1 @ [big_spot m],
               calls := calls conn1 @ [ExecuteMany [big_spot m] None]\<rparr>, Inr ())"
    by (simp add: conn1_def)
  have "import_loop rest conn1 (0 + length (map big_spot ns))
      = (conn1\<lparr>pending := pending conn1 @ [big_spot m],
               calls := calls conn1 @ [ExecuteMany [big_spot m] None]\<rparr>,
         Inr (Suc BULK_LENGTH))"
    by (simp add: import_loop.simps [of rest] fill1 ex1 assms(5))
  then show ?thesis
    unfolding rest_def [symmetric]
    by (simp add: import_loop.simps [of "prepend (map big_spot ns) rest"] fill ex conn1_def)
qed

lemma length_big_ids: "length big_ids = BULK_LENGTH"
  by (simp add: big_ids_def BULK_LENGTH_def del: upt.simps upt_rec_numeral)

lemma distinct_big_ids: "distinct big_ids"
  by (simp add: big_ids_def del: upt.simps upt_rec_numeral)

lemma set_big_ids: "set big_ids = {1..<1001}"
  by (simp add: big_ids_def del: upt.simps upt_rec_numeral)

lemma spots_big:
  "spots example_env_big example_world_big ''archive.gz'' 0
     = prepend (map big_spot big_ids) (Yield (big_spot 1001) StopIteration)"
proof -
  have "\<forall>n \<in> set big_ids. (0::int) < int n \<and> n < 4300"
    by (simp add: set_big_ids)
  from read_spots_prepend [OF this] read_line_big_line [of 0 1001]
  show ?thesis
    by (simp add: spots_def opened_def example_world_big_def example_env_big_def
        example_env_def big_archive_def)
qed


lemma created_tables:
  "map_of (tables (store (connect (database_file example_world_created)))) ''wspr''
     = Some wspr_columns"
  by code_simp

lemma created_rows: "wspr (store (connect (database_file example_world_created))) = []"
  by code_simp

lemma created_pending: "pending (connect (database_file example_world_created)) = []"
  by code_simp

lemma created_calls: "calls (connect (database_file example_world_created)) = []"
  by code_simp

lemma length_wspr_columns: "length wspr_columns = INSERT"
  by code_simp

lemma database_file_big: "database_file example_world_big = database_file example_world_created"
  by (simp add: example_world_big_def)


lemma import_loop_big:
  "import_loop (spots example_env_big example_world_big ''archive.gz'' 0)
      (connect (database_file example_world_big)) 0
     = ((connect (database_file example_world_created))
          \<lparr>pending := map big_spot big_ids @ [big_spot 1001],
           calls := [ExecuteMany (map big_spot big_ids) None,
                     ExecuteMany [big_spot 1001] None]\<rparr>,
        Inr (Suc BULK_LENGTH))"
proof -
  have last: "1001 \<notin> set big_ids" and small: "\<forall>n \<in> set big_ids. n < 4300"
    by (simp_all add: set_big_ids)
  from import_loop_two_batches [OF created_tables length_wspr_columns created_rows
      created_pending length_big_ids distinct_big_ids last small]
  show ?thesis
    by (simp add: spots_big database_file_big created_calls)
qed


lemma length_spots_big:
  "length (items (spots example_env_big example_world_big ''archive.gz'' 0)) = 1001"
  by (simp add: spots_big items_prepend length_big_ids BULK_LENGTH_def)

lemma wspr_import_big:
  "snd (wspr_import example_env_big ''archive.gz'' 0 example_world_big) = Inr ()"
  "new_calls example_world_big
        (fst (wspr_import example_env_big ''archive.gz'' 0 example_world_big))
      = [ExecuteMany (map big_spot big_ids) None, ExecuteMany [big_spot 1001] None,
         Commit, Close]"
  "rows_of (fst (wspr_import example_env_big ''archive.gz'' 0 example_world_big))
      = map big_spot big_ids @ [big_spot 1001]"
  using wspr_import_run [OF import_loop_big]
  by (simp_all add: DBConnect_exit_def commit_def close_def write_pending_def created_rows)



text \<open>
  Claim C1, as amended. A run of \<open>wspr_import\<close> that returns, on a stream of \<open>m\<close>
  records, hands the records to \<open>executemany\<close> in \<open>\<lceil>m / 1000\<rceil>\<close> batches, in order,
  each of 1000 records but the last, which has \<open>m mod 1000\<close> when that is not zero,
  and none when \<open>m = 0\<close>; the calls on the connection are these inserts followed by one
  commit and the close, so the whole import is committed once, on leaving the scope.
\<close>

theorem wspr_import_batches:
  assumes "wspr_import env filename start_id w = (w', Inr ())"
    and "m = length (items (spots env w filename start_id))"
  shows "new_calls w w'
      = map (\<lambda>b. ExecuteMany b None)
          (batches BULK_LENGTH (items (spots env w filename start_id)))
        @ [Commit, Close]
    \<and> int (length (executed (new_calls w w'))) = \<lceil>real m / real BULK_LENGTH\<rceil>
    \<and> map length (executed (new_calls w w'))
        = replicate (m div BULK_LENGTH) BULK_LENGTH
          @ (if m mod BULK_LENGTH = 0 then [] else [m mod BULK_LENGTH])
    \<and> concat (executed (new_calls w w')) = items (spots env w filename start_id)
    \<and> (m = 0 \<longrightarrow> executed (new_calls w w') = [])
    \<and> commits (new_calls w w') = 1
    \<and> rows_of w' = rows_of w @ items (spots env w filename start_id)
    \<and> new_log w w' = [(INFO, Records_processed m)]"
proof -
  define xs where "xs = items (spots env w filename start_id)"
  from wspr_import_result [OF assms(1)]
  have calls: "new_calls w w' = map (\<lambda>b. ExecuteMany b None) (batches BULK_LENGTH xs) @ [Commit, Close]"
    and rows: "rows_of w' = rows_of w @ concat (batches BULK_LENGTH xs)"
    and logs: "new_log w w' = [(INFO, Records_processed (length xs))]"
    unfolding xs_def by auto
  have ex: "executed (new_calls w w') = batches BULK_LENGTH xs"
    by (simp add: calls)
  have m: "m = length xs"
    by (simp add: assms(2) xs_def)
  have "int (length (executed (new_calls w w'))) = \<lceil>real m / real BULK_LENGTH\<rceil>"
    by (simp only: ex m length_batches ceiling_div [OF BULK_LENGTH_pos])
  moreover have "map length (executed (new_calls w w'))
        = replicate (m div BULK_LENGTH) BULK_LENGTH
          @ (if m mod BULK_LENGTH = 0 then [] else [m mod BULK_LENGTH])"
    by (simp only: ex m map_length_batches [OF BULK_LENGTH_pos])
  moreover have "concat (executed (new_calls w w')) = xs"
    by (simp only: ex concat_batches [OF BULK_LENGTH_pos])
  moreover have "m = 0 \<longrightarrow> executed (new_calls w w') = []"
    by (simp add: ex m batches_Nil BULK_LENGTH_pos)
  moreover have "commits (new_calls w w') = 1"
    by (simp add: calls) (simp add: commits_def)
  moreover from rows have "rows_of w' = rows_of w @ xs"
    by (simp only: concat_batches [OF BULK_LENGTH_pos])
  ultimately show ?thesis
    using calls logs unfolding xs_def [symmetric] m by (intro conjI)
qed

theorem wspr_import_batches_witness:
  "wspr_import example_env ''archive.gz'' 0 example_world_created
     = (fst (wspr_import example_env ''archive.gz'' 0 example_world_created), Inr ())
   \<and> 3 = length (items (spots example_env example_world_created ''archive.gz'' 0))
   \<and> new_calls example_world_created
        (fst (wspr_import example_env ''archive.gz'' 0 example_world_created))
      = [ExecuteMany [example_spot ''10'', example_spot ''11'', example_spot ''12''] None,
         Commit, Close]
   \<and> int (length (executed (new_calls example_world_created
        (fst (wspr_import example_env ''archive.gz'' 0 example_world_created)))))
      = \<lceil>real 3 / real BULK_LENGTH\<rceil>
   \<and> commits (new_calls example_world_created
        (fst (wspr_import example_env ''archive.gz'' 0 example_world_created))) = 1"
proof -
  have "snd (wspr_import example_env ''archive.gz'' 0 example_world_created) = Inr ()"
    by code_simp
  then have run: "wspr_import example_env ''archive.gz'' 0 example_world_created
     = (fst (wspr_import example_env ''archive.gz'' 0 example_world_created), Inr ())"
    by (simp add: prod_eq_iff)
  have three: "3 = length (items (spots example_env example_world_created ''archive.gz'' 0))"
    by code_simp
  have calls: "new_calls example_world_created
        (fst (wspr_import example_env ''archive.gz'' 0 example_world_created))
      = [ExecuteMany [example_spot ''10'', example_spot ''11'', example_spot ''12''] None,
         Commit, Close]"
    by code_simp
  note inst = wspr_import_batches [OF run three]
  from inst [THEN conjunct2, THEN conjunct1]
    inst [THEN conjunct2, THEN conjunct2, THEN conjunct2, THEN conjunct2, THEN conjunct2,
      THEN conjunct1]
    run three calls
  show ?thesis by (intro conjI)
qed

text \<open>
  Claim C1 as stated fails on the number of commits. On an archive of 1001 records the
  run returns after two inserts, the first of 1000 records, and the connection is
  committed once, after the second insert, where the claim has two commits, the first
  as soon as the first batch is full. On an archive with no record nothing is inserted
  and the connection is still committed once, where the claim has no commit.
\<close>

theorem wspr_import_commits_once:
  "length (items (spots example_env_big example_world_big ''archive.gz'' 0)) = 1001
   \<and> snd (wspr_import example_env_big ''archive.gz'' 0 example_world_big) = Inr ()
   \<and> new_calls example_world_big
        (fst (wspr_import example_env_big ''archive.gz'' 0 example_world_big))
      = [ExecuteMany (map big_spot big_ids) None, ExecuteMany [big_spot 1001] None,
         Commit, Close]
   \<and> length (map big_spot big_ids) = 1000
   \<and> int (commits (new_calls example_world_big
        (fst (wspr_import example_env_big ''archive.gz'' 0 example_world_big))))
      \<noteq> \<lceil>real 1001 / real BULK_LENGTH\<rceil>
   \<and> length (items (spots example_env_more example_world_empty ''archive.gz'' 0)) = 0
   \<and> snd (wspr_import example_env_more ''archive.gz'' 0 example_world_empty) = Inr ()
   \<and> new_calls example_world_empty
        (fst (wspr_import example_env_more ''archive.gz'' 0 example_world_empty))
      = [Commit, Close]
   \<and> int (commits (new_calls example_world_empty
        (fst (wspr_import example_env_more ''archive.gz'' 0 example_world_empty))))
      \<noteq> \<lceil>real 0 / real BULK_LENGTH\<rceil>"
proof -
  have calls: "new_calls example_world_empty
        (fst (wspr_import example_env_more ''archive.gz'' 0 example_world_empty))
      = [Commit, Close]"
    by code_simp
  have no_records:
    "length (items (spots example_env_more example_world_empty ''archive.gz'' 0)) = 0"
    by code_simp
  have returns: "snd (wspr_import example_env_more ''archive.gz'' 0 example_world_empty)
      = Inr ()"
    by code_simp
  have once: "int (commits (new_calls example_world_empty
        (fst (wspr_import example_env_more ''archive.gz'' 0 example_world_empty))))
      \<noteq> \<lceil>real 0 / real BULK_LENGTH\<rceil>"
    by (simp add: calls commits_def)
  have full: "length (map big_spot big_ids) = 1000"
    by (simp add: length_big_ids BULK_LENGTH_def)
  have "\<lceil>real 1001 / real BULK_LENGTH\<rceil> = 2"
    by (simp add: BULK_LENGTH_def)
  then have big_once: "int (commits (new_calls example_world_big
        (fst (wspr_import example_env_big ''archive.gz'' 0 example_world_big))))
      \<noteq> \<lceil>real 1001 / real BULK_LENGTH\<rceil>"
    by (simp add: wspr_import_big(2) commits_def)
  from length_spots_big wspr_import_big(1) wspr_import_big(2) full big_once
    no_records returns calls once
  show ?thesis by (intro conjI)
qed

section \<open>The coordinates of a record\<close>





section \<open>Aborted runs\<close>

lemma list_max_None: "(list_max xs = None) = (xs = [])"
  by (cases xs) (auto split: option.splits)

lemma list_max_Some: "list_max xs = Some m \<Longrightarrow> m \<in> set xs \<and> (\<forall>x \<in> set xs. x \<le> m)"
  by (induction xs arbitrary: m) (auto split: option.splits simp: list_max_None max_def)

lemma set_spot_ids: "set (spot_ids rows) = {n. \<exists>r \<in> set rows. primary_key r = Some n}"
  by (induction rows) (auto simp: spot_ids_def List.map_filter_simps split: option.splits)

lemma watermark_upper:
  "r \<in> set (rows_of w) \<Longrightarrow> primary_key r = Some n \<Longrightarrow> n \<le> watermark w"
proof -
  assume r: "r \<in> set (rows_of w)" "primary_key r = Some n"
  then have n: "n \<in> set (spot_ids (rows_of w))"
    by (auto simp: set_spot_ids)
  then obtain m where m: "list_max (spot_ids (rows_of w)) = Some m"
    by (cases "list_max (spot_ids (rows_of w))") (auto simp: list_max_None)
  from list_max_Some [OF m] n have "n \<le> m" by blast
  with m show ?thesis by (simp add: watermark_def)
qed

lemma main_last_id_existing:
  assumes "database_file w = Some db" and "map_of (tables db) ''wspr'' \<noteq> None"
  shows "main_last_id w
     = (w\<lparr>logged := logged w @ [(INFO, Database), (INFO, Counting_records),
                                 (INFO, Last_id (watermark w))],
          db_calls := db_calls w @ [SelectMax, Commit, Close]\<rparr>,
        Inr (watermark w))"
  using assms
  by (auto simp: main_last_id_def DBConnect_def select_max_def connect_def DBConnect_exit_def
      close_def commit_def write_pending_def info_def watermark_def rows_of_def Let_def
      split: option.splits)

lemma spots_above:
  assumes "r \<in> set (items (spots env w filename start_id))"
  shows "\<exists>n. spot_id r = Some n \<and> start_id < n"
proof -
  from assms read_spots_item_line obtain l
    where "read_line (geo_grid2latlon env) start_id l = Inr (Some r)"
    unfolding spots_def by blast
  from read_line_yield_id [OF this] show ?thesis by blast
qed

lemma wspr_import_new_ids:
  assumes "wspr_import env filename start_id w = (w', res)"
    and "rows_of w' = rows_of w @ xs" and "r \<in> set xs"
  shows "\<exists>n. spot_id r = Some n \<and> primary_key r = Some n \<and> start_id < n"
proof -
  from wspr_import_new_rows [of env filename start_id w] assms(1) obtain rows where
    "rows_of w' = rows_of w @ rows"
    and sub: "set rows \<subseteq> set (items (spots env w filename start_id))"
    and valid: "\<forall>r \<in> set rows. length r = INSERT \<and> primary_key r \<noteq> None"
    by auto
  with assms(2) have "rows = xs" by simp
  with assms(3) sub valid have "r \<in> set (items (spots env w filename start_id))"
    and "primary_key r \<noteq> None"
    by auto
  then obtain n k where n: "spot_id r = Some n" "start_id < n" and k: "primary_key r = Some k"
    using spots_above by blast
  from primary_key_spot_id [OF k n(1)] n k show ?thesis by simp
qed





section \<open>Fetching twice\<close>

lemma Timer_0:
  assumes "body (w\<lparr>ticks := Suc (ticks w)\<rparr>) = (w1, r)"
  shows "\<exists>parts. Timer env title 0 body w
      = (info (Timer_message parts) (w1\<lparr>ticks := Suc (ticks w1)\<rparr>), r)"
proof -
  obtain parts where
    "Timer_exit title 0 (time_time env (ticks w)) (time_time env (ticks w1)) = Inr parts"
    using Timer_exit_returns by blast
  with assms show ?thesis
    by (intro exI [of _ parts]) (simp add: Timer_def Let_def)
qed

lemma download_archive_frame:
  assumes "download_archive env path month force w = (w', r)"
  shows "database_file w' = database_file w \<and> db_calls w' = db_calls w
     \<and> (\<exists>entries. logged w' = logged w @ entries
          \<and> (\<forall>n. (INFO, Records_processed n) \<notin> set entries)
          \<and> (WARNING, Nothing_to_import) \<notin> set entries)"
proof -
  obtain w1 r1 where tried:
    "download_try env (target_url env month) (target_path env path month) force w = (w1, r1)"
    by (cases "download_try env (target_url env month) (target_path env path month) force w")
      auto
  from download_try_frame [OF tried] obtain entries where
    "database_file w1 = database_file w" "db_calls w1 = db_calls w"
    "logged w1 = logged w @ entries"
    "set entries \<subseteq> {(INFO, No_new_data (target_url env month)),
                     (INFO, Downloading (target_url env month))}"
    by blast
  with assms tried show ?thesis
    by (cases r1) (auto simp: download_archive_unfold info_def split: if_splits bool.splits)
qed

lemma main_filename_frame:
  assumes "main_filename env opts w = (w', r)"
  shows "database_file w' = database_file w \<and> db_calls w' = db_calls w
     \<and> (\<exists>entries. logged w' = logged w @ entries
          \<and> (\<forall>n. (INFO, Records_processed n) \<notin> set entries)
          \<and> (WARNING, Nothing_to_import) \<notin> set entries)"
proof (cases "opt_filename opts \<noteq> None \<and> opt_filename opts \<noteq> Some []")
  case True
  with assms show ?thesis
    by (auto simp: main_filename_def)
next
  case False
  define body where
    "body = download_archive env (TMP_DIR env) (opt_month opts) (opt_force opts)"
  obtain w1 r1 where b: "body (w\<lparr>ticks := Suc (ticks w)\<rparr>) = (w1, r1)"
    by (cases "body (w\<lparr>ticks := Suc (ticks w)\<rparr>)") auto
  from Timer_0 [of body w w1 r1 env "''Download archive''", OF b] obtain parts where
    "Timer env ''Download archive'' 0 body w
      = (info (Timer_message parts) (w1\<lparr>ticks := Suc (ticks w1)\<rparr>), r1)"
    by blast
  with assms False have w': "w' = info (Timer_message parts) (w1\<lparr>ticks := Suc (ticks w1)\<rparr>)"
    by (auto simp: main_filename_def body_def)
  from download_archive_frame [OF b [unfolded body_def]] obtain entries where
    "database_file w1 = database_file w" "db_calls w1 = db_calls w"
    "logged w1 = logged w @ entries" "\<forall>n. (INFO, Records_processed n) \<notin> set entries"
    "(WARNING, Nothing_to_import) \<notin> set entries"
    by auto
  then show ?thesis
    by (intro conjI exI [of _ "entries @ [(INFO, Timer_message parts)]"])
      (auto simp: w' info_def)
qed

text \<open>
  The fetcher called again on the files it has left, with the same answer of the
  server: the files stay as they are, and it returns what it returned, or, when
  \<open>force\<close> is unset, no path after logging \<open>No new data\<close>.
\<close>

lemma download_archive_again:
  assumes "download_archive env path month force w = (wa, Inr fo)"
    and "files w' = files wa"
  shows "\<exists>wb fo'. download_archive env path month force w' = (wb, Inr fo')
     \<and> files wb = files wa
     \<and> (fo' = fo \<or> (fo' = None \<and> \<not> force
          \<and> (INFO, No_new_data (target_url env month)) \<in> set (new_log w' wb)))"
proof -
  define url where "url = target_url env month"
  define p where "p = target_path env path month"
  note unfold = download_archive_unfold [of env path month force, folded url_def p_def]
  show ?thesis
  proof (cases "urlopen env url")
    case (Inl e)
    then have "download_try env url p force v = (v, Inl e)" for v :: "'a world"
      by (simp add: download_try_def)
    with assms show ?thesis
      by (auto simp: unfold info_def split: if_splits)
  next
    case (Inr resp)
    define result :: "error + string option" where
      "result = (case read_raises resp of
                   None \<Rightarrow> Inr (Some p)
                 | Some e \<Rightarrow> if is_URLError e then Inr None else Inl e)"
    have downloads: "download_archive env path month force v
        = ((case read_raises resp of
              None \<Rightarrow> info (Downloading url) v
            | Some e \<Rightarrow> if is_URLError e
                then info (HTTP_Error e) (info (Downloading url) v)
                else info (Downloading url) v)\<lparr>files := (files v)(p \<mapsto> received resp)\<rparr>,
           result)"
      if "force \<or> (\<exists>l. resp_length resp = Some l \<and> get_size v p < l)" for v :: "'a world"
      using download_try_downloads [OF Inr that]
      by (cases "read_raises resp") (auto simp: unfold result_def info_def)
    have stale: "download_archive env path month force v = (info (No_new_data url) v, Inr None)"
      if "\<not> force" "resp_length resp = Some l" "l \<le> get_size v p" for v :: "'a world" and l
      using download_try_no_new_data [OF Inr that] by (simp add: unfold)
    have files_update: "files (fst (download_archive env path month force v))
        = (files v)(p \<mapsto> received resp)"
      if "force \<or> (\<exists>l. resp_length resp = Some l \<and> get_size v p < l)" for v :: "'a world"
      using downloads [OF that] by (cases "read_raises resp") (auto simp: info_def)
    show ?thesis
    proof (cases "force \<or> (\<exists>l. resp_length resp = Some l \<and> get_size w p < l)")
      case True
      from downloads [OF True] assms(1) have fo: "result = Inr fo"
        by simp
      from files_update [OF True] assms(1) have wa: "files wa = (files w)(p \<mapsto> received resp)"
        by simp
      show ?thesis
      proof (cases "force \<or> (\<exists>l. resp_length resp = Some l \<and> get_size w' p < l)")
        case again: True
        from files_update [OF again] assms(2) wa
        have "files (fst (download_archive env path month force w')) = files wa"
          by simp
        moreover from downloads [OF again] fo
        have "snd (download_archive env path month force w') = Inr fo"
          by simp
        ultimately show ?thesis
          by (intro exI [of _ "fst (download_archive env path month force w')"] exI [of _ fo])
            (simp add: prod_eq_iff)
      next
        case False
        with True obtain l where l: "\<not> force" "resp_length resp = Some l" "l \<le> get_size w' p"
          by auto
        from stale [OF l] assms(2) l(1) show ?thesis
          by (intro exI [of _ "info (No_new_data url) w'"] exI [of _ None])
            (simp add: info_def new_log_def url_def)
      qed
    next
      case False
      then have "\<not> force" by simp
      show ?thesis
      proof (cases "resp_length resp")
        case None
        with Inr \<open>\<not> force\<close> have "download_try env url p force w = (w, Inl TypeError)"
          by (simp add: download_try_def)
        with assms(1) show ?thesis
          by (simp add: unfold)
      next
        case (Some l)
        with False have l: "l \<le> get_size w p" by auto
        from stale [OF \<open>\<not> force\<close> Some l] assms(1) have wa: "wa = info (No_new_data url) w"
          and fo: "fo = None"
          by simp_all
        with assms(2) have "get_size w' p = get_size w p"
          by (simp add: get_size_def info_def)
        with l have "l \<le> get_size w' p" by simp
        from stale [OF \<open>\<not> force\<close> Some this] assms(2) fo show ?thesis
          by (intro exI [of _ "info (No_new_data url) w'"] exI [of _ None])
            (simp add: info_def)
      qed
    qed
  qed
qed

lemma main_filename_again:
  assumes "main_filename env opts w = (wa, Inr fo)"
    and "files w' = files wa"
  shows "\<exists>wb fo'. main_filename env opts w' = (wb, Inr fo')
     \<and> files wb = files wa
     \<and> (fo' = fo \<or> (fo' = None
          \<and> (INFO, No_new_data (target_url env (opt_month opts))) \<in> set (new_log w' wb)))
     \<and> (opt_force opts \<or> (opt_filename opts \<noteq> None \<and> opt_filename opts \<noteq> Some [])
          \<longrightarrow> fo' = fo)"
proof (cases "opt_filename opts \<noteq> None \<and> opt_filename opts \<noteq> Some []")
  case True
  with assms show ?thesis
    by (auto simp: main_filename_def)
next
  case False
  define body where
    "body = download_archive env (TMP_DIR env) (opt_month opts) (opt_force opts)"
  obtain w1 r1 where b: "body (w\<lparr>ticks := Suc (ticks w)\<rparr>) = (w1, r1)"
    by (cases "body (w\<lparr>ticks := Suc (ticks w)\<rparr>)") auto
  from Timer_0 [of body w w1 r1 env "''Download archive''", OF b] obtain parts where
    "Timer env ''Download archive'' 0 body w
      = (info (Timer_message parts) (w1\<lparr>ticks := Suc (ticks w1)\<rparr>), r1)"
    by blast
  with assms(1) False
  have wa: "wa = info (Timer_message parts) (w1\<lparr>ticks := Suc (ticks w1)\<rparr>)"
    and r1: "r1 = Inr fo"
    by (auto simp: main_filename_def body_def)
  from wa assms(2) have "files (w'\<lparr>ticks := Suc (ticks w')\<rparr>) = files w1"
    by (simp add: info_def)
  from download_archive_again [OF b [unfolded body_def r1] this] obtain wb0 fo' where
    again: "body (w'\<lparr>ticks := Suc (ticks w')\<rparr>) = (wb0, Inr fo')"
    and same: "files wb0 = files w1"
    and fo': "fo' = fo \<or> (fo' = None \<and> \<not> opt_force opts
          \<and> (INFO, No_new_data (target_url env (opt_month opts)))
              \<in> set (new_log (w'\<lparr>ticks := Suc (ticks w')\<rparr>) wb0))"
    unfolding body_def by blast
  from Timer_0 [of body w' wb0 "Inr fo'" env "''Download archive''", OF again] obtain parts' where
    timer: "Timer env ''Download archive'' 0 body w'
      = (info (Timer_message parts') (wb0\<lparr>ticks := Suc (ticks wb0)\<rparr>), Inr fo')"
    by blast
  define wb where "wb = info (Timer_message parts') (wb0\<lparr>ticks := Suc (ticks wb0)\<rparr>)"
  from download_archive_frame [OF again [unfolded body_def]] obtain entries where
    entries: "logged wb0 = logged w' @ entries"
    by auto
  from timer False have "main_filename env opts w' = (wb, Inr fo')"
    by (auto simp: main_filename_def body_def wb_def)
  moreover from same wa have "files wb = files wa"
    by (simp add: wb_def info_def)
  moreover from fo' entries
  have "fo' = fo \<or> (fo' = None
          \<and> (INFO, No_new_data (target_url env (opt_month opts))) \<in> set (new_log w' wb))"
    by (auto simp: new_log_def wb_def info_def)
  moreover from fo' False
  have "opt_force opts \<or> (opt_filename opts \<noteq> None \<and> opt_filename opts \<noteq> Some [])
          \<longrightarrow> fo' = fo"
    by auto
  ultimately show ?thesis by blast
qed

section \<open>Running twice\<close>

lemma main_imports:
  assumes "imported_file env opts w = Some f"
  shows "main env opts w = import_phase env f (fetched env opts w)"
  using assms
  by (cases "main_filename env opts w")
    (auto simp: imported_file_def fetched_def main_def import_phase_def
      split: sum.splits option.splits if_splits)

lemma main_nothing:
  assumes "imported_file env opts w = None" and "snd (main_filename env opts w) = Inr fo"
  shows "main env opts w = (warning Nothing_to_import (fetched env opts w), Inr ())"
  using assms
  by (cases "main_filename env opts w")
    (auto simp: imported_file_def fetched_def main_def split: option.splits if_splits)

lemma main_fetch_raises:
  assumes "snd (main_filename env opts w) = Inl e"
  shows "main env opts w = (fetched env opts w, Inl e)"
  using assms
  by (cases "main_filename env opts w") (auto simp: fetched_def main_def)

lemma run_script_fresh:
  "\<exists>db. run_script SQL_TABLE (empty_database :: 'c database) = (db, None)
     \<and> wspr db = [] \<and> map_of (tables db) ''wspr'' \<noteq> None"
  by (simp add: SQL_TABLE_def empty_database_def wspr_columns_def)

lemma main_last_id_result:
  assumes "main_last_id w = (w', Inr s)"
  shows "s = watermark w \<and> watermark w' = watermark w \<and> files w' = files w
    \<and> rows_of w' = rows_of w
    \<and> (\<exists>db. database_file w' = Some db \<and> map_of (tables db) ''wspr'' \<noteq> None)
    \<and> executed (new_calls w w') = []"
proof (cases "database_file w")
  case None
  obtain db :: "'a database" where db: "run_script SQL_TABLE empty_database = (db, None)"
    "wspr db = []" "map_of (tables db) ''wspr'' \<noteq> None"
    using run_script_fresh by blast
  from None db(1) have "main_last_id w
    = (w\<lparr>logged := logged w @ [(INFO, Database)],
         database_file := Some (db\<lparr>wspr := wspr db @ []\<rparr>),
         db_calls := db_calls w @ [ExecuteScript SQL_TABLE None, Commit, Close]\<rparr>, Inr 0)"
    by (simp add: main_last_id_def create_db_def DBConnect_def executescript_def connect_def
        DBConnect_exit_def close_def commit_def write_pending_def info_def Let_def)
  with assms None db(2,3) show ?thesis
    by (auto simp: watermark_def rows_of_def new_calls_def spot_ids_def List.map_filter_simps)
next
  case (Some db)
  show ?thesis
  proof (cases "map_of (tables db) ''wspr''")
    case None
    with Some assms show ?thesis
      by (auto simp: main_last_id_def DBConnect_def select_max_def connect_def Let_def info_def)
  next
    case cols: (Some cols)
    then have "map_of (tables db) ''wspr'' \<noteq> None" by simp
    from main_last_id_existing [OF Some this] assms Some cols show ?thesis
      by (auto simp: watermark_def rows_of_def new_calls_def)
  qed
qed

lemma generator_empty: "items g = [] \<Longrightarrow> outcome g = None \<Longrightarrow> g = StopIteration"
  by (cases g) auto

lemma import_loop_Stop: "import_loop StopIteration conn counter = (conn, Inr counter)"
  by (simp add: import_loop.simps [of StopIteration] fill_bulk_Stop BULK_LENGTH_pos)

lemma wspr_import_nothing:
  assumes "spots env w f sid = StopIteration" and "database_file w = Some db"
  shows "wspr_import env f sid w
    = (w\<lparr>db_calls := db_calls w @ [Commit, Close],
         logged := logged w @ [(INFO, Records_processed 0)]\<rparr>, Inr ())"
  using assms
  by (simp add: wspr_import_def spots_def opened_def Let_def import_loop_Stop DBConnect_def
      connect_def DBConnect_exit_def close_def commit_def write_pending_def info_def)

lemma read_line_skipped:
  assumes "line_id l = Some n" and "n \<le> sid"
  shows "read_line g sid l = Inr None"
  using assms by (simp add: read_line_cases line_id_def split: sum.splits)

lemma read_spots_all_skipped:
  assumes "outcome zfd = None"
    and "\<forall>l \<in> set (items zfd). \<exists>n. line_id l = Some n \<and> n \<le> sid"
  shows "read_spots g zfd sid = StopIteration"
  using assms
proof (induction zfd)
  case (Yield l zfd)
  then obtain n where "line_id l = Some n" "n \<le> sid" by auto
  from read_line_skipped [OF this, of g] Yield show ?case by simp
qed simp_all

lemma read_spots_accounted:
  assumes "outcome (read_spots g zfd sid) = None" and "l \<in> set (items zfd)"
  shows "(\<exists>n. line_id l = Some n \<and> n \<le> sid)
     \<or> (\<exists>r \<in> set (items (read_spots g zfd sid)). \<exists>n. spot_id r = Some n \<and> line_id l = Some n)"
  using assms
proof (induction zfd)
  case (Yield l' zfd)
  show ?case
  proof (cases "read_line g sid l'")
    case (Inl e)
    with Yield.prems show ?thesis by simp
  next
    case (Inr res)
    show ?thesis
    proof (cases res)
      case None
      with Inr Yield read_line_skip_id [of g sid l'] show ?thesis by auto
    next
      case (Some r)
      with Inr Yield read_line_yield_id [of g sid l' r] show ?thesis by auto
    qed
  qed
qed simp_all

lemma spots_files: "files w' = files w \<Longrightarrow> spots env w' f s = spots env w f s"
  by (simp add: spots_def opened_def)

lemma watermark_mono:
  assumes "rows_of w1 = rows_of w @ xs"
    and "\<forall>r \<in> set xs. \<exists>n. primary_key r = Some n \<and> watermark w < n"
  shows "watermark w \<le> watermark w1"
proof (cases xs)
  case Nil
  with assms(1) show ?thesis by (simp add: watermark_def)
next
  case (Cons r rs)
  with assms(2) obtain n where n: "primary_key r = Some n" "watermark w < n" by auto
  from Cons assms(1) have "r \<in> set (rows_of w1)" by simp
  from watermark_upper [OF this n(1)] n(2) show ?thesis by simp
qed

lemma watermark_attained:
  assumes "rows_of w1 = rows_of w @ xs" and "xs \<noteq> []"
    and "\<forall>r \<in> set xs. \<exists>n. primary_key r = Some n \<and> watermark w < n"
  shows "\<exists>r \<in> set xs. primary_key r = Some (watermark w1)"
proof -
  from assms(2) obtain r where r: "r \<in> set xs" by (cases xs) auto
  with assms(3) obtain n where n: "primary_key r = Some n" "watermark w < n" by blast
  from r n(1) assms(1) have "n \<in> set (spot_ids (rows_of w1))"
    by (auto simp: set_spot_ids)
  then obtain m where m: "list_max (spot_ids (rows_of w1)) = Some m"
    by (cases "list_max (spot_ids (rows_of w1))") (auto simp: list_max_None)
  then have wm: "watermark w1 = m" by (simp add: watermark_def)
  from list_max_Some [OF m] obtain r' where r': "r' \<in> set (rows_of w1)" "primary_key r' = Some m"
    by (auto simp: set_spot_ids)
  from r n(1) assms(1) have "r \<in> set (rows_of w1)" by simp
  from watermark_upper [OF this n(1)] n(2) wm have above: "watermark w < m" by simp
  have "r' \<notin> set (rows_of w)"
  proof
    assume "r' \<in> set (rows_of w)"
    from watermark_upper [OF this r'(2)] above show False by simp
  qed
  with r'(1) assms(1) have "r' \<in> set xs" by simp
  with r'(2) wm show ?thesis by blast
qed

text \<open>
  The import of a run that returns: every line of the file was read, and has an id at
  most the watermark that the run leaves.
\<close>

lemma import_phase_first:
  assumes "import_phase env f w = (w1, Inr ())"
  shows "files w1 = files w"
    and "\<exists>dbc. database_file w1 = Some dbc \<and> map_of (tables dbc) ''wspr'' \<noteq> None"
    and "outcome (opened env w f) = None"
    and "\<forall>l \<in> set (items (opened env w f)). \<exists>n. line_id l = Some n \<and> n \<le> watermark w1"
    and "rows_of w1 \<noteq> rows_of w \<longrightarrow>
           (\<exists>l \<in> set (items (opened env w f)). line_id l = Some (watermark w1))"
proof -
  obtain wa ra where a: "main_last_id w = (wa, ra)"
    by (cases "main_last_id w") auto
  with assms obtain s0 where ra: "ra = Inr s0"
    by (cases ra) (auto simp: import_phase_def)
  define wb where "wb = (info (Importing f) wa)\<lparr>ticks := Suc (ticks (info (Importing f) wa))\<rparr>"
  obtain wc rc where c: "wspr_import env f s0 wb = (wc, rc)"
    by (cases "wspr_import env f s0 wb") auto
  from Timer_0 [of "wspr_import env f s0" "info (Importing f) wa" wc rc env "''Import WSPR''"] c
  obtain parts where timer: "Timer env ''Import WSPR'' 0 (wspr_import env f s0)
      (info (Importing f) wa) = (info (Timer_message parts) (wc\<lparr>ticks := Suc (ticks wc)\<rparr>), rc)"
    unfolding wb_def by blast
  from a ra timer assms have rc: "rc = Inr ()"
    and w1: "w1 = info Cache_info (info (Timer_message parts) (wc\<lparr>ticks := Suc (ticks wc)\<rparr>))"
    by (auto simp: import_phase_def split: sum.splits)
  from a ra main_last_id_result [of w wa s0] obtain dba where
    s0: "s0 = watermark w" and wa: "files wa = files w" "rows_of wa = rows_of w"
      "database_file wa = Some dba" "map_of (tables dba) ''wspr'' \<noteq> None"
    by auto
  have wb_db: "database_file wb = database_file wa"
    by (simp add: wb_def info_def)
  then have "rows_of wb = rows_of wa" "tables_of wb = tables_of wa"
    by (simp_all add: rows_of_def tables_of_def)
  with wa have wb: "files wb = files w" "rows_of wb = rows_of w" "tables_of wb = tables dba"
    by (simp_all add: wb_def info_def tables_of_def)
  define xs where "xs = items (spots env w f s0)"
  from c rc wspr_import_result [of env f s0 wb wc "Inr ()"] spots_files [OF wb(1), of env f s0]
  have wc: "rows_of wc = rows_of w @ xs" "database_file wc \<noteq> None" "files wc = files w"
      "tables_of wc = tables dba" "outcome (spots env w f s0) = None"
    unfolding xs_def using concat_batches [OF BULK_LENGTH_pos] wb by auto
  from wc(2,4) wa(4) obtain dbc where dbc: "database_file wc = Some dbc"
      "map_of (tables dbc) ''wspr'' \<noteq> None"
    by (auto simp: tables_of_def)
  have w1_same: "database_file w1 = database_file wc"
    by (simp add: w1 info_def)
  then have "rows_of w1 = rows_of wc"
    by (simp add: rows_of_def)
  with w1_same dbc wc have w1_db: "database_file w1 = Some dbc" and w1_files: "files w1 = files w"
    and w1_rows: "rows_of w1 = rows_of w @ xs"
    by (simp_all add: w1 info_def)
  from wc(1) wb(2) have "rows_of wc = rows_of wb @ xs" by simp
  from wspr_import_new_ids [OF c this]
  have xs_ids: "\<forall>r \<in> set xs. \<exists>n. spot_id r = Some n \<and> primary_key r = Some n \<and> watermark w < n"
    unfolding s0 by blast
  then have xs_above: "\<forall>r \<in> set xs. \<exists>n. primary_key r = Some n \<and> watermark w < n"
    by blast
  from watermark_mono [OF w1_rows xs_above] have mono: "watermark w \<le> watermark w1" .
  from wc(5) have reader: "outcome (read_spots (geo_grid2latlon env) (opened env w f) s0) = None"
    by (simp add: spots_def)
  have lines: "\<exists>n. line_id l = Some n \<and> n \<le> watermark w1"
    if l: "l \<in> set (items (opened env w f))" for l
  proof -
    from read_spots_accounted [OF reader l]
    show ?thesis
    proof
      assume "\<exists>n. line_id l = Some n \<and> n \<le> s0"
      with mono s0 show ?thesis by auto
    next
      assume "\<exists>r \<in> set (items (read_spots (geo_grid2latlon env) (opened env w f) s0)).
          \<exists>n. spot_id r = Some n \<and> line_id l = Some n"
      then obtain r n where r: "r \<in> set xs" "spot_id r = Some n" "line_id l = Some n"
        by (auto simp: xs_def spots_def)
      with xs_ids have key: "primary_key r = Some n" by auto
      from r(1) w1_rows have "r \<in> set (rows_of w1)" by simp
      from watermark_upper [OF this key] r(3) show ?thesis by simp
    qed
  qed
  have attained: "\<exists>l \<in> set (items (opened env w f)). line_id l = Some (watermark w1)"
    if "rows_of w1 \<noteq> rows_of w"
  proof -
    from that w1_rows have "xs \<noteq> []" by auto
    from watermark_attained [OF w1_rows this xs_above]
    obtain r where r: "r \<in> set xs" "primary_key r = Some (watermark w1)" by blast
    with xs_ids have id: "spot_id r = Some (watermark w1)" by auto
    from r(1) read_spots_item_line obtain l where l: "l \<in> set (items (opened env w f))"
      "read_line (geo_grid2latlon env) s0 l = Inr (Some r)"
      unfolding xs_def spots_def by blast
    from read_line_yield_id [OF l(2)] id have "line_id l = Some (watermark w1)" by auto
    with l(1) show ?thesis by blast
  qed
  show "files w1 = files w" by (rule w1_files)
  from w1_db dbc(2)
  show "\<exists>dbc. database_file w1 = Some dbc \<and> map_of (tables dbc) ''wspr'' \<noteq> None"
    by blast
  from read_spots_outcome_None [OF reader] show "outcome (opened env w f) = None" by simp
  from lines
  show "\<forall>l \<in> set (items (opened env w f)). \<exists>n. line_id l = Some n \<and> n \<le> watermark w1"
    by blast
  from attained
  show "rows_of w1 \<noteq> rows_of w \<longrightarrow>
           (\<exists>l \<in> set (items (opened env w f)). line_id l = Some (watermark w1))"
    by blast
qed

text \<open>
  The import from a file whose lines all have an id at most the watermark of the
  table: the reader skips every line, and nothing is inserted.
\<close>

lemma import_phase_second:
  assumes "database_file w = Some db" and "map_of (tables db) ''wspr'' \<noteq> None"
    and "outcome (opened env w f) = None"
    and "\<forall>l \<in> set (items (opened env w f)). \<exists>n. line_id l = Some n \<and> n \<le> watermark w"
  shows "\<exists>w2 parts. import_phase env f w = (w2, Inr ())
     \<and> database_file w2 = database_file w
     \<and> db_calls w2 = db_calls w @ [SelectMax, Commit, Close, Commit, Close]
     \<and> logged w2 = logged w @ [(INFO, Database), (INFO, Counting_records),
          (INFO, Last_id (watermark w)), (INFO, Importing f), (INFO, Records_processed 0),
          (INFO, Timer_message parts), (INFO, Cache_info)]
     \<and> spots env w f (watermark w) = StopIteration"
proof -
  from read_spots_all_skipped [OF assms(3), of "watermark w" "geo_grid2latlon env"] assms(4)
  have stop: "spots env w f (watermark w) = StopIteration"
    by (auto simp: spots_def)
  note last = main_last_id_existing [OF assms(1,2)]
  define wa2 where "wa2 = w\<lparr>logged := logged w @ [(INFO, Database), (INFO, Counting_records),
                                 (INFO, Last_id (watermark w))],
          db_calls := db_calls w @ [SelectMax, Commit, Close]\<rparr>"
  define wb2 where "wb2 = (info (Importing f) wa2)\<lparr>ticks := Suc (ticks (info (Importing f) wa2))\<rparr>"
  have wb2: "files wb2 = files w" "database_file wb2 = Some db"
    by (simp_all add: wb2_def wa2_def info_def assms(1))
  from stop spots_files [OF wb2(1), of env f "watermark w"]
  have "spots env wb2 f (watermark w) = StopIteration" by simp
  note no_records = wspr_import_nothing [OF this wb2(2)]
  define wc2 where "wc2 = wb2\<lparr>db_calls := db_calls wb2 @ [Commit, Close],
      logged := logged wb2 @ [(INFO, Records_processed 0)]\<rparr>"
  have body2: "wspr_import env f (watermark w) wb2 = (wc2, Inr ())"
    unfolding wc2_def by (rule no_records)
  from Timer_0 [of "wspr_import env f (watermark w)" "info (Importing f) wa2" wc2 "Inr ()"
      env "''Import WSPR''", OF body2 [unfolded wb2_def]]
  obtain parts2 where timer2: "Timer env ''Import WSPR'' 0 (wspr_import env f (watermark w))
      (info (Importing f) wa2)
    = (info (Timer_message parts2) (wc2\<lparr>ticks := Suc (ticks wc2)\<rparr>), Inr ())"
    by blast
  define w2 where "w2 = info Cache_info (info (Timer_message parts2)
      (wc2\<lparr>ticks := Suc (ticks wc2)\<rparr>))"
  from last timer2 have run2: "import_phase env f w = (w2, Inr ())"
    by (simp add: import_phase_def wa2_def [symmetric] w2_def)
  have db2: "database_file w2 = database_file w"
    by (simp add: w2_def wc2_def info_def wb2 assms(1))
  have calls2: "db_calls w2 = db_calls w @ [SelectMax, Commit, Close, Commit, Close]"
    by (simp add: w2_def wc2_def info_def wb2_def wa2_def)
  have log2: "logged w2 = logged w @ [(INFO, Database), (INFO, Counting_records),
      (INFO, Last_id (watermark w)), (INFO, Importing f), (INFO, Records_processed 0),
      (INFO, Timer_message parts2), (INFO, Cache_info)]"
    by (simp add: w2_def wc2_def info_def wb2_def wa2_def)
  from run2 db2 calls2 log2 stop show ?thesis
    by blast
qed

lemma watermark_same: "database_file w' = database_file w \<Longrightarrow> watermark w' = watermark w"
  by (simp add: watermark_def rows_of_def)

lemma opened_files: "files w' = files w \<Longrightarrow> opened env w' f = opened env w f"
  by (simp add: opened_def)

text \<open>
  Claim C6, as amended. When a run of \<open>main\<close> returns normally, a second run with the
  same options on the state it leaves, with the same answers of the server, returns
  normally too, leaves the database file as it is, hands nothing to \<open>executemany\<close>
  and logs no count other than 0. Every line of the file that the first run imported
  from has an id at most the watermark that the first run leaves; that watermark is the
  id of a line of the file when the first run added a row, and can lie above every id of
  the file otherwise. When the second run imports, it imports from the same file with
  the same lines, logs that watermark and the count 0, and its reader skips every line;
  it does so whenever a file was given or \<open>force\<close> is set. Otherwise it may find no
  new data: then it logs \<open>No new data\<close> and \<open>Nothing to import\<close>.
\<close>

theorem main_rerun_imports_nothing:
  assumes "main env opts w = (w1, Inr ())"
  shows "\<exists>w2. main env opts w1 = (w2, Inr ())
      \<and> database_file w2 = database_file w1
      \<and> executed (new_calls w1 w2) = []
      \<and> (\<forall>n. (INFO, Records_processed n) \<in> set (new_log w1 w2) \<longrightarrow> n = 0)
      \<and> (\<forall>l \<in> set (archive_lines env opts w). \<exists>n. line_id l = Some n \<and> n \<le> watermark w1)
      \<and> (rows_of w1 \<noteq> rows_of w \<longrightarrow>
           (\<exists>l \<in> set (archive_lines env opts w). line_id l = Some (watermark w1)))
      \<and> (\<forall>f. imported_file env opts w1 = Some f \<longrightarrow>
             imported_file env opts w = Some f
           \<and> archive_lines env opts w1 = archive_lines env opts w
           \<and> spots env (fetched env opts w1) f (watermark w1) = StopIteration
           \<and> (INFO, Last_id (watermark w1)) \<in> set (new_log w1 w2)
           \<and> (INFO, Records_processed 0) \<in> set (new_log w1 w2))
      \<and> (imported_file env opts w1 = None \<longrightarrow>
             (WARNING, Nothing_to_import) \<in> set (new_log w1 w2)
           \<and> (imported_file env opts w \<noteq> None \<longrightarrow>
                (INFO, No_new_data (target_url env (opt_month opts))) \<in> set (new_log w1 w2)))
      \<and> (opt_force opts \<or> (opt_filename opts \<noteq> None \<and> opt_filename opts \<noteq> Some [])
           \<longrightarrow> imported_file env opts w1 = imported_file env opts w)"
proof -
  obtain wa ra where first: "main_filename env opts w = (wa, ra)"
    by (cases "main_filename env opts w") auto
  with assms obtain fo where ra: "ra = Inr fo"
    by (cases ra) (auto simp: main_def)
  have fetched: "fetched env opts w = wa"
    by (simp add: fetched_def first)
  from main_filename_frame [OF first] have wa_db: "database_file wa = database_file w"
    by simp
  have imported: "imported_file env opts w
      = (case fo of None \<Rightarrow> None
         | Some f \<Rightarrow> if f = [] \<or> files wa f = None then None else Some f)"
    by (simp add: imported_file_def fetched first ra split: option.splits)
  have after: "files w1 = files wa
      \<and> (\<forall>l \<in> set (archive_lines env opts w). \<exists>n. line_id l = Some n \<and> n \<le> watermark w1)
      \<and> (rows_of w1 \<noteq> rows_of w \<longrightarrow>
           (\<exists>l \<in> set (archive_lines env opts w). line_id l = Some (watermark w1)))
      \<and> (\<forall>f. imported_file env opts w = Some f \<longrightarrow>
            (\<exists>dbc. database_file w1 = Some dbc \<and> map_of (tables dbc) ''wspr'' \<noteq> None)
          \<and> outcome (opened env wa f) = None)
      \<and> (imported_file env opts w = None \<longrightarrow> database_file w1 = database_file wa)"
  proof (cases "imported_file env opts w")
    case None
    from main_nothing [OF None, of fo] first ra assms fetched
    have "w1 = warning Nothing_to_import wa"
      by simp
    with None wa_db show ?thesis
      by (simp add: warning_def archive_lines_def rows_of_def)
  next
    case (Some f)
    from main_imports [OF Some] assms fetched have run: "import_phase env f wa = (w1, Inr ())"
      by simp
    have lines: "archive_lines env opts w = items (opened env wa f)"
      by (simp add: archive_lines_def Some fetched)
    from wa_db have "rows_of wa = rows_of w"
      by (simp add: rows_of_def)
    with import_phase_first [OF run] Some lines show ?thesis
      by simp
  qed
  then have w1_files: "files w1 = files wa"
    and lines: "\<forall>l \<in> set (archive_lines env opts w). \<exists>n. line_id l = Some n \<and> n \<le> watermark w1"
    and attained: "rows_of w1 \<noteq> rows_of w \<longrightarrow>
           (\<exists>l \<in> set (archive_lines env opts w). line_id l = Some (watermark w1))"
    by blast+
  from main_filename_again [OF first [unfolded ra] w1_files] obtain wb fo' where
    second: "main_filename env opts w1 = (wb, Inr fo')"
    and wb_files: "files wb = files wa"
    and fo': "fo' = fo \<or> (fo' = None
          \<and> (INFO, No_new_data (target_url env (opt_month opts))) \<in> set (new_log w1 wb))"
    and forced: "opt_force opts \<or> (opt_filename opts \<noteq> None \<and> opt_filename opts \<noteq> Some [])
          \<longrightarrow> fo' = fo"
    by blast
  have fetched1: "fetched env opts w1 = wb"
    by (simp add: fetched_def second)
  from main_filename_frame [OF second] obtain entries where
    wb_db: "database_file wb = database_file w1" and wb_calls: "db_calls wb = db_calls w1"
    and wb_log: "logged wb = logged w1 @ entries"
    and entries: "\<forall>n. (INFO, Records_processed n) \<notin> set entries"
    by blast
  have imported1: "imported_file env opts w1
      = (case fo' of None \<Rightarrow> None
         | Some f \<Rightarrow> if f = [] \<or> files wa f = None then None else Some f)"
    by (simp add: imported_file_def fetched1 second wb_files split: option.splits)
  with imported forced
  have same: "opt_force opts \<or> (opt_filename opts \<noteq> None \<and> opt_filename opts \<noteq> Some [])
           \<longrightarrow> imported_file env opts w1 = imported_file env opts w"
    by auto
  show ?thesis
  proof (cases "imported_file env opts w1")
    case None
    define w2 where "w2 = warning Nothing_to_import wb"
    from main_nothing [OF None, of fo'] second fetched1
    have run2: "main env opts w1 = (w2, Inr ())"
      by (simp add: w2_def)
    have log2: "logged w2 = logged w1 @ entries @ [(WARNING, Nothing_to_import)]"
      by (simp add: w2_def warning_def wb_log)
    have "imported_file env opts w \<noteq> None \<longrightarrow>
        (INFO, No_new_data (target_url env (opt_month opts))) \<in> set (new_log w1 w2)"
    proof
      assume "imported_file env opts w \<noteq> None"
      with None imported imported1 have "fo' \<noteq> fo"
        by auto
      with fo' have "(INFO, No_new_data (target_url env (opt_month opts))) \<in> set (new_log w1 wb)"
        by simp
      then show "(INFO, No_new_data (target_url env (opt_month opts))) \<in> set (new_log w1 w2)"
        by (simp add: new_log_def log2 wb_log)
    qed
    with run2 log2 entries None lines attained same wb_db wb_calls show ?thesis
      by (intro exI [of _ w2])
        (auto simp: new_log_def new_calls_def w2_def warning_def)
  next
    case (Some f)
    with imported1 imported fo' have was: "imported_file env opts w = Some f"
      by (auto split: option.splits if_splits)
    with after obtain dbc where dbc: "database_file w1 = Some dbc"
        "map_of (tables dbc) ''wspr'' \<noteq> None"
      and complete: "outcome (opened env wa f) = None"
      by blast
    have opened: "opened env wb f = opened env wa f"
      using wb_files by (rule opened_files)
    have mark: "watermark wb = watermark w1"
      using wb_db by (rule watermark_same)
    from was have lines_wa: "archive_lines env opts w = items (opened env wa f)"
      by (simp add: archive_lines_def fetched)
    from Some have lines_wb: "archive_lines env opts w1 = items (opened env wb f)"
      by (simp add: archive_lines_def fetched1)
    from lines lines_wa opened mark
    have below: "\<forall>l \<in> set (items (opened env wb f)). \<exists>n. line_id l = Some n \<and> n \<le> watermark wb"
      by simp
    from dbc wb_db have "database_file wb = Some dbc" by simp
    from import_phase_second [OF this dbc(2) complete [folded opened] below]
    obtain w2 parts where run: "import_phase env f wb = (w2, Inr ())"
      and db2: "database_file w2 = database_file wb"
      and calls2: "db_calls w2 = db_calls wb @ [SelectMax, Commit, Close, Commit, Close]"
      and log2: "logged w2 = logged wb @ [(INFO, Database), (INFO, Counting_records),
          (INFO, Last_id (watermark wb)), (INFO, Importing f), (INFO, Records_processed 0),
          (INFO, Timer_message parts), (INFO, Cache_info)]"
      and stop: "spots env wb f (watermark wb) = StopIteration"
      by blast
    from main_imports [OF Some] run fetched1 have run2: "main env opts w1 = (w2, Inr ())"
      by simp
    from run2 db2 calls2 log2 stop wb_db wb_calls wb_log entries Some was lines attained same
      lines_wa lines_wb opened mark fetched1
    show ?thesis
      by (intro exI [of _ w2]) (auto simp: new_log_def new_calls_def)
  qed
qed

theorem main_rerun_imports_nothing_witness:
  "main example_env example_opts_file example_world = (example_world_imported, Inr ())
   \<and> archive_lines example_env example_opts_file example_world
       = [example_line ''10'', example_line ''11'', example_line ''12'']
   \<and> watermark example_world_imported = 12
   \<and> imported_file example_env example_opts_file example_world_imported = Some ''archive.gz''
   \<and> (\<exists>w2. main example_env example_opts_file example_world_imported = (w2, Inr ())
        \<and> database_file w2 = database_file example_world_imported
        \<and> executed (new_calls example_world_imported w2) = []
        \<and> (INFO, Last_id 12) \<in> set (new_log example_world_imported w2)
        \<and> (INFO, Records_processed 0) \<in> set (new_log example_world_imported w2))
   \<and> main example_env example_opts_month example_world = (example_world_downloaded, Inr ())
   \<and> imported_file example_env example_opts_month example_world
       = Some ''/tmp/wsprspots-2026-11.csv.gz''
   \<and> map primary_key (rows_of example_world_downloaded) = [Some 10, Some 11, Some 12]
   \<and> imported_file example_env example_opts_month example_world_downloaded = None
   \<and> (\<exists>w2. main example_env example_opts_month example_world_downloaded = (w2, Inr ())
        \<and> database_file w2 = database_file example_world_downloaded
        \<and> executed (new_calls example_world_downloaded w2) = []
        \<and> (WARNING, Nothing_to_import) \<in> set (new_log example_world_downloaded w2)
        \<and> (INFO, No_new_data (target_url example_env (Some 11)))
            \<in> set (new_log example_world_downloaded w2))"
proof -
  have "snd (main example_env example_opts_file example_world) = Inr ()"
    by code_simp
  then have run: "main example_env example_opts_file example_world
       = (example_world_imported, Inr ())"
    by (simp add: prod_eq_iff example_world_imported_def)
  have lines: "archive_lines example_env example_opts_file example_world
       = [example_line ''10'', example_line ''11'', example_line ''12'']"
    by code_simp
  have mark: "watermark example_world_imported = 12"
    by code_simp
  have again: "imported_file example_env example_opts_file example_world_imported
      = Some ''archive.gz''"
    by code_simp
  from main_rerun_imports_nothing [OF run] again mark
  have given: "\<exists>w2. main example_env example_opts_file example_world_imported = (w2, Inr ())
        \<and> database_file w2 = database_file example_world_imported
        \<and> executed (new_calls example_world_imported w2) = []
        \<and> (INFO, Last_id 12) \<in> set (new_log example_world_imported w2)
        \<and> (INFO, Records_processed 0) \<in> set (new_log example_world_imported w2)"
    by auto
  have "snd (main example_env example_opts_month example_world) = Inr ()"
    by code_simp
  then have fetch: "main example_env example_opts_month example_world
       = (example_world_downloaded, Inr ())"
    by (simp add: prod_eq_iff example_world_downloaded_def)
  have from_file: "imported_file example_env example_opts_month example_world
       = Some ''/tmp/wsprspots-2026-11.csv.gz''"
    by code_simp
  have keys: "map primary_key (rows_of example_world_downloaded) = [Some 10, Some 11, Some 12]"
    by code_simp
  have stale: "imported_file example_env example_opts_month example_world_downloaded = None"
    by code_simp
  have month: "opt_month example_opts_month = Some 11"
    by code_simp
  from main_rerun_imports_nothing [OF fetch] stale from_file month
  have fetched: "\<exists>w2. main example_env example_opts_month example_world_downloaded = (w2, Inr ())
        \<and> database_file w2 = database_file example_world_downloaded
        \<and> executed (new_calls example_world_downloaded w2) = []
        \<and> (WARNING, Nothing_to_import) \<in> set (new_log example_world_downloaded w2)
        \<and> (INFO, No_new_data (target_url example_env (Some 11)))
            \<in> set (new_log example_world_downloaded w2)"
    by auto
  from run lines mark again given fetch from_file keys stale fetched show ?thesis
    by (intro conjI)
qed

text \<open>
  Claim C6 as stated fails on the watermark, and on a first run that does not return.
  On a database that already holds a record with the id 100, a run on the example
  archive (ids 10, 11, 12) returns normally and imports nothing; the watermark after it
  is 100, not the greatest id of the archive. On the archive with the ids 10, 11, 11 and
  12, a first run ends with \<open>IntegrityError\<close> at the second 11 and leaves the rows 10
  and 11; the second run on the same archive then imports the record 12.
\<close>

theorem main_watermark_above_archive:
  "snd (main example_env example_opts_file example_world_later) = Inr ()
   \<and> map line_id (items (opened example_env example_world_later ''archive.gz''))
       = [Some 10, Some 11, Some 12]
   \<and> watermark (fst (main example_env example_opts_file example_world_later)) = 100
   \<and> snd (main_last_id (fst (main example_env example_opts_file example_world_later)))
       = Inr 100
   \<and> (INFO, Records_processed 0)
       \<in> set (logged (fst (main example_env example_opts_file example_world_later)))
   \<and> map line_id (items (opened example_env_more example_world_again ''archive.gz''))
       = [Some 10, Some 11, Some 11, Some 12]
   \<and> snd (main example_env_more example_opts_file example_world_again) = Inl IntegrityError
   \<and> map primary_key (rows_of example_world_aborted) = [Some 10, Some 11]
   \<and> files example_world_aborted = files example_world_again
   \<and> snd (main example_env_more example_opts_file example_world_aborted) = Inr ()
   \<and> (INFO, Records_processed 1)
       \<in> set (logged (fst (main example_env_more example_opts_file example_world_aborted)))
   \<and> map primary_key
         (rows_of (fst (main example_env_more example_opts_file example_world_aborted)))
       = [Some 10, Some 11, Some 12]"
proof -
  have same: "files example_world_aborted = files example_world_again"
    unfolding example_world_aborted_def
    by (rule ext) code_simp
  have "snd (main example_env example_opts_file example_world_later) = Inr ()"
    "map line_id (items (opened example_env example_world_later ''archive.gz''))
       = [Some 10, Some 11, Some 12]"
    "watermark (fst (main example_env example_opts_file example_world_later)) = 100"
    "snd (main_last_id (fst (main example_env example_opts_file example_world_later)))
       = Inr 100"
    "(INFO, Records_processed 0)
       \<in> set (logged (fst (main example_env example_opts_file example_world_later)))"
    "map line_id (items (opened example_env_more example_world_again ''archive.gz''))
       = [Some 10, Some 11, Some 11, Some 12]"
    "snd (main example_env_more example_opts_file example_world_again) = Inl IntegrityError"
    "map primary_key (rows_of example_world_aborted) = [Some 10, Some 11]"
    "snd (main example_env_more example_opts_file example_world_aborted) = Inr ()"
    "(INFO, Records_processed 1)
       \<in> set (logged (fst (main example_env_more example_opts_file example_world_aborted)))"
    "map primary_key
         (rows_of (fst (main example_env_more example_opts_file example_world_aborted)))
       = [Some 10, Some 11, Some 12]"
    by code_simp+
  with same show ?thesis
    by (intro conjI)
qed

end
